theory Spec2Isabelle
  imports Complex_Main "HOL-Library.Word"
begin

section \<open>Bitmap sequence reader: data model\<close>

text \<open>
  The reader of \<^verbatim>\<open>BitmapSequenceReader.cpp\<close> replays rectangular image patches onto one
  persistent pixel buffer. \<^verbatim>\<open>Frame\<close> is a 64-bit signed integer in the source; it is an
  \<open>int\<close> here: the only arithmetic on it is \<^verbatim>\<open>lastDecodeFrame + 1\<close>, \<^verbatim>\<open>frame--\<close> from a
  non-negative value and \<^verbatim>\<open>frame++\<close> up to a frame that indexes the frame vector, none of
  which can leave the 64-bit range on a sequence that fits in memory.
\<close>

type_synonym byte = "8 word"

text \<open>\<^verbatim>\<open>BitmapRect\<close>: destination offset and the encoded bytes of one patch.\<close>

record BitmapRect =
  rectX :: int
  rectY :: int
  fileBytes :: "byte list"

text \<open>\<^verbatim>\<open>BitmapFrame\<close>: the keyframe flag and the ordered patches of one frame.\<close>

record BitmapFrame =
  isKeyframe :: bool
  bitmaps :: "BitmapRect list"

text \<open>
  Reading \<^verbatim>\<open>bitmapFrames[frame]\<close> outside the vector and writing pixels outside the pixel
  buffer are undefined behaviour in the source. The model makes both an explicit fault, so
  that no theorem silently relies on an unspecified value.
\<close>

datatype fault = FrameOutOfRange | WriteOutOfBounds

section \<open>Start-frame resolution\<close>

text \<open>
  \<^verbatim>\<open>for (Frame frame = targetFrame; frame >= 0; frame--)\<close> of \<^verbatim>\<open>findStartFrame\<close>. The
  test \<^verbatim>\<open>frame == lastDecodeFrame + 1\<close> comes first and short-circuits, so the frame vector
  is read only when it is false.
\<close>

function findStartFrame_scan :: "BitmapFrame list \<Rightarrow> int \<Rightarrow> int \<Rightarrow> fault + int" where
  "findStartFrame_scan bitmapFrames lastDecode frame =
     (if frame \<ge> 0 then
        (if frame = lastDecode + 1 then Inr frame
         else if int (length bitmapFrames) \<le> frame then Inl FrameOutOfRange
         else if isKeyframe (bitmapFrames ! nat frame) then Inr frame
         else findStartFrame_scan bitmapFrames lastDecode (frame - 1))
      else Inr 0)"
  by pat_completeness auto
termination
  by (relation "measure (\<lambda>(bitmapFrames, lastDecode, frame). nat (frame + 1))") auto

declare findStartFrame_scan.simps [simp del]

section \<open>Pixel buffer and image codec\<close>

text \<open>
  Modelled from the spec: \<^verbatim>\<open>tgfx::Pixmap\<close> and \<^verbatim>\<open>tgfx::PixelBuffer\<close> are not among the
  sources. The canvas is a fixed-size RGBA raster, four bytes per pixel, row-major, its rows
  contiguous, so \<^verbatim>\<open>rowBytes()\<close> is four times the width and the buffer holds
  \<open>rowBytes * height\<close> bytes.
\<close>

record Pixmap =
  width :: nat
  height :: nat
  pixels :: "byte list"

definition rowBytes :: "Pixmap \<Rightarrow> nat" where
  "rowBytes bitmap = 4 * width bitmap"


text \<open>
  Modelled from the spec: \<^verbatim>\<open>Pixmap::eraseAll\<close> is not among the sources; the canvas is
  cleared to fully transparent, that is every byte becomes zero.
\<close>

definition eraseAll :: "Pixmap \<Rightarrow> Pixmap" where
  "eraseAll bitmap = bitmap\<lparr>pixels := replicate (length (pixels bitmap)) 0\<rparr>"

text \<open>
  Modelled from the spec: \<^verbatim>\<open>tgfx::ImageCodec\<close> is not among the sources. A codec made from
  a patch's bytes knows the decoded width and height; \<open>decodes\<close> says whether
  \<^verbatim>\<open>readPixels\<close> succeeds, and \<open>decoded k\<close> is byte \<open>k\<close> of the decoded image,
  row-major with four bytes per pixel.
\<close>

record ImageCodec =
  codecWidth :: nat
  codecHeight :: nat
  decodes :: bool
  decoded :: "nat \<Rightarrow> byte"

text \<open>One row of \<open>row\<close> bytes overwrites the buffer from position \<open>pos\<close> on.\<close>

definition putRow :: "nat \<Rightarrow> byte list \<Rightarrow> byte list \<Rightarrow> byte list" where
  "putRow pos row buf = take pos buf @ row @ drop (pos + length row) buf"

text \<open>
  The first \<open>n\<close> rows of the decoded image, each \<open>w\<close> bytes long, are written at the
  destination stride \<open>stride\<close> from byte \<open>off\<close> on: an overwrite, with no blending.
\<close>

primrec copyRows :: "(nat \<Rightarrow> byte) \<Rightarrow> nat \<Rightarrow> nat \<Rightarrow> nat \<Rightarrow> nat \<Rightarrow> byte list \<Rightarrow> byte list" where
  "copyRows src w stride off 0 buf = buf"
| "copyRows src w stride off (Suc n) buf =
     putRow (off + n * stride) (map (\<lambda>c. src (n * w + c)) [0..<w]) (copyRows src w stride off n buf)"

text \<open>The write stays inside a buffer of \<open>len\<close> bytes (nothing is written when a side is 0).\<close>

definition fits :: "int \<Rightarrow> nat \<Rightarrow> nat \<Rightarrow> nat \<Rightarrow> nat \<Rightarrow> bool" where
  "fits offset stride w n len =
     (n = 0 \<or> w = 0 \<or> (0 \<le> offset \<and> nat offset + (n - 1) * stride + w \<le> len))"

text \<open>Byte \<open>i\<close> of the buffer lies in one of the rows written.\<close>

definition inRows :: "nat \<Rightarrow> nat \<Rightarrow> nat \<Rightarrow> nat \<Rightarrow> nat \<Rightarrow> bool" where
  "inRows off stride w n i = (\<exists>r<n. off + r * stride \<le> i \<and> i < off + r * stride + w)"

text \<open>
  Modelled from the spec: \<^verbatim>\<open>ImageCodec::readPixels(dstInfo, dstPixels)\<close> is not among the
  sources. It reports failure without writing when the bytes cannot be decoded; otherwise it
  blits the decoded image to \<open>dstPixels\<close> (the buffer start plus \<open>offset\<close>) with the
  destination's row stride. A write that leaves the buffer is undefined behaviour in the
  source and a fault here.
\<close>

definition readPixels :: "ImageCodec \<Rightarrow> Pixmap \<Rightarrow> int \<Rightarrow> fault + (bool \<times> Pixmap)" where
  "readPixels codec bitmap offset =
     (if \<not> decodes codec then Inr (False, bitmap)
      else if \<not> fits offset (rowBytes bitmap) (4 * codecWidth codec) (codecHeight codec)
                  (length (pixels bitmap))
      then Inl WriteOutOfBounds
      else Inr (True, bitmap\<lparr>pixels :=
             copyRows (decoded codec) (4 * codecWidth codec) (rowBytes bitmap) (nat offset)
               (codecHeight codec) (pixels bitmap)\<rparr>))"

section \<open>Replay\<close>

text \<open>
  The effects of one call, in program order: the writes to the member
  \<^verbatim>\<open>lastDecodeFrame\<close> and the calls into the codec and the pixel buffer.
\<close>

datatype effect =
    SetLastDecodeFrame int
  | MakeCodec "byte list"
  | EraseAll
  | ReadPixels int bool

text \<open>
  A fault ends the run where it occurs; it is reported together with the effects that
  precede it, which have taken place in the source as well.
\<close>

type_synonym replay = "(fault \<times> effect list) + (bool \<times> Pixmap \<times> effect list)"

definition withEffects :: "effect list \<Rightarrow> replay \<Rightarrow> replay" where
  "withEffects es r =
     (case r of
        Inl (f, tr) \<Rightarrow> Inl (f, es @ tr)
      | Inr (ok, bitmap, tr) \<Rightarrow> Inr (ok, bitmap, es @ tr))"

text \<open>
  The inner loop \<^verbatim>\<open>for (auto bitmapRect : bitmapFrame->bitmaps)\<close> of \<^verbatim>\<open>onMakeBuffer\<close>,
  with the local \<^verbatim>\<open>firstRead\<close> and the pixel buffer threaded through. \<open>makeFrom\<close> is
  \<^verbatim>\<open>tgfx::ImageCodec::MakeFrom\<close>, the codec library, which returns no codec for an empty
  frame. The boolean of the result is false when a \<^verbatim>\<open>readPixels\<close> failed, where the
  source returns \<^verbatim>\<open>nullptr\<close>. The offset is \<^verbatim>\<open>rowBytes * y + x * 4\<close>; a negative value
  wraps to a huge \<^verbatim>\<open>size_t\<close> in the source and is out of bounds in both. The source
  computes \<^verbatim>\<open>x * 4\<close> in 32 bits, which is exact for every offset inside a buffer of less
  than \<open>2^31\<close> bytes; the model computes it in \<open>int\<close>.
\<close>

fun decodeRects :: "(byte list \<Rightarrow> ImageCodec option) \<Rightarrow> bool \<Rightarrow> BitmapRect list \<Rightarrow> bool \<Rightarrow> Pixmap \<Rightarrow> replay" where
  "decodeRects makeFrom keyframe [] firstRead bitmap = Inr (True, bitmap, [])"
| "decodeRects makeFrom keyframe (bitmapRect # rest) firstRead bitmap =
     (case makeFrom (fileBytes bitmapRect) of
        None \<Rightarrow>
          withEffects [MakeCodec (fileBytes bitmapRect)]
            (decodeRects makeFrom keyframe rest firstRead bitmap)
      | Some codec \<Rightarrow>
          (let clear = (firstRead \<and> keyframe \<and>
                 \<not> (codecWidth codec = width bitmap \<and> codecHeight codec = height bitmap));
               bitmap1 = (if clear then eraseAll bitmap else bitmap);
               offset = int (rowBytes bitmap1) * rectY bitmapRect + rectX bitmapRect * 4;
               before = MakeCodec (fileBytes bitmapRect) # (if clear then [EraseAll] else [])
           in (case readPixels codec bitmap1 offset of
                 Inl f \<Rightarrow> Inl (f, before)
               | Inr (result, bitmap2) \<Rightarrow>
                   if \<not> result then Inr (False, bitmap2, before @ [ReadPixels offset False])
                   else withEffects (before @ [ReadPixels offset True])
                          (decodeRects makeFrom keyframe rest False bitmap2))))"

declare decodeRects.simps(2) [simp del]

text \<open>The outer loop \<^verbatim>\<open>for (Frame frame = startFrame; frame <= targetFrame; frame++)\<close>.\<close>

function decodeFrames :: "(byte list \<Rightarrow> ImageCodec option) \<Rightarrow> BitmapFrame list \<Rightarrow> int \<Rightarrow> int \<Rightarrow> Pixmap \<Rightarrow> replay" where
  "decodeFrames makeFrom bitmapFrames frame targetFrame bitmap =
     (if frame \<le> targetFrame then
        (if frame < 0 \<or> int (length bitmapFrames) \<le> frame then Inl (FrameOutOfRange, [])
         else (case decodeRects makeFrom (isKeyframe (bitmapFrames ! nat frame))
                      (bitmaps (bitmapFrames ! nat frame)) True bitmap of
                 Inl (f, tr) \<Rightarrow> Inl (f, tr)
               | Inr (ok, bitmap1, tr) \<Rightarrow>
                   if \<not> ok then Inr (False, bitmap1, tr)
                   else withEffects tr
                          (decodeFrames makeFrom bitmapFrames (frame + 1) targetFrame bitmap1)))
      else Inr (True, bitmap, []))"
  by pat_completeness auto
termination
  by (relation "measure (\<lambda>(makeFrom, bitmapFrames, frame, targetFrame, bitmap). nat (targetFrame + 1 - frame))") auto

declare decodeFrames.simps [simp del]

section \<open>The reader\<close>

text \<open>
  The members of \<^verbatim>\<open>BitmapSequenceReader\<close> that \<^verbatim>\<open>onMakeBuffer\<close> uses: the frames of
  the sequence, the pixel buffer (\<open>None\<close> is \<^verbatim>\<open>nullptr\<close>) and the marker
  \<^verbatim>\<open>lastDecodeFrame\<close>, where \<open>-1\<close> stands for no frame.
\<close>

record BitmapSequenceReader =
  frames :: "BitmapFrame list"
  pixelBuffer :: "Pixmap option"
  lastDecodeFrame :: int


definition findStartFrame :: "BitmapSequenceReader \<Rightarrow> int \<Rightarrow> fault + int" where
  "findStartFrame reader targetFrame =
     findStartFrame_scan (frames reader) (lastDecodeFrame reader) targetFrame"

text \<open>
  \<^verbatim>\<open>onMakeBuffer\<close>, one call under the lock: the returned buffer (\<open>None\<close> is
  \<^verbatim>\<open>nullptr\<close>), the reader afterwards and the effects of the call. The pixel buffer is
  mutated in place, so the reader keeps whatever a failed replay has painted. A fault is
  reported with the effects of the call that precede it.
\<close>

definition onMakeBuffer :: "(byte list \<Rightarrow> ImageCodec option) \<Rightarrow> BitmapSequenceReader \<Rightarrow> int \<Rightarrow> (fault \<times> effect list) + (Pixmap option \<times> BitmapSequenceReader \<times> effect list)" where
  "onMakeBuffer makeFrom reader targetFrame =
     (if lastDecodeFrame reader = targetFrame then Inr (pixelBuffer reader, reader, [])
      else (case pixelBuffer reader of
              None \<Rightarrow> Inr (None, reader, [])
            | Some bitmap \<Rightarrow>
                (case findStartFrame reader targetFrame of
                   Inl f \<Rightarrow> Inl (f, [])
                 | Inr startFrame \<Rightarrow>
                     (case decodeFrames makeFrom (frames reader) startFrame targetFrame bitmap of
                        Inl (f, tr) \<Rightarrow> Inl (f, SetLastDecodeFrame (- 1) # tr)
                      | Inr (ok, bitmap1, tr) \<Rightarrow>
                          if \<not> ok
                          then Inr (None,
                                 reader\<lparr>lastDecodeFrame := - 1, pixelBuffer := Some bitmap1\<rparr>,
                                 SetLastDecodeFrame (- 1) # tr)
                          else Inr (Some bitmap1,
                                 reader\<lparr>lastDecodeFrame := targetFrame, pixelBuffer := Some bitmap1\<rparr>,
                                 SetLastDecodeFrame (- 1) # tr @ [SetLastDecodeFrame targetFrame])))))"

section \<open>YUV texture effect: shader emission\<close>

text \<open>
  Modelled from the spec: the enumerations \<^verbatim>\<open>YUVPixelFormat\<close> and \<^verbatim>\<open>YUVColorSpace\<close> are
  declared in headers that are not among the sources. Each has the enumerators that
  \<^verbatim>\<open>GLYUVTextureEffect.cpp\<close> names and, as a C++ enumeration can hold any value of its
  underlying type, one constructor for every other value.
\<close>

datatype YUVPixelFormat = I420 | NV12 | OtherPixelFormat nat

datatype YUVColorSpace =
    BT601_LIMITED | BT601_FULL
  | BT709_LIMITED | BT709_FULL
  | BT2020_LIMITED | BT2020_FULL
  | JPEG_FULL
  | OtherColorSpace nat

text \<open>
  Modelled from the spec: \<^verbatim>\<open>IsLimitedYUVColorRange\<close> is not among the sources; the
  limited-range luma offset applies when the tag is a limited range.
\<close>

definition IsLimitedYUVColorRange :: "YUVColorSpace \<Rightarrow> bool" where
  "IsLimitedYUVColorRange colorSpace =
     (colorSpace = BT601_LIMITED \<or> colorSpace = BT709_LIMITED \<or> colorSpace = BT2020_LIMITED)"

text \<open>
  A \<^verbatim>\<open>Point\<close> has two \<^verbatim>\<open>float\<close> coordinates. Finite floats are rationals, and the code
  only compares and forwards them, so the coordinates are of type \<open>rat\<close>.
\<close>

record Point =
  pointX :: rat
  pointY :: rat

definition PointZero :: Point where
  "PointZero = \<lparr>pointX = 0, pointY = 0\<rparr>"

text \<open>
  What the effect reads of the texture: its pixel format, its colour space and
  \<^verbatim>\<open>getTextureCoord\<close>, which belongs to the texture class and is taken as given.
\<close>

record YUVTexture =
  pixelFormat :: YUVPixelFormat
  colorSpace :: YUVColorSpace
  getTextureCoord :: "rat \<Rightarrow> rat \<Rightarrow> Point"

record YUVTextureEffect =
  texture :: YUVTexture
  alphaStart :: Point

text \<open>
  What \<^verbatim>\<open>emitCode\<close> appends to the fragment shader: literal code, a texture lookup of
  the sampler with the given index at the named coordinate, and the two explanatory GLSL
  comment lines of the alpha branch, whose text is not ASCII and is kept by number.
\<close>

datatype fragment = Code string | TextureLookup nat string | Comment nat

datatype ShaderVarType = Float2 | Float3x3

type_synonym UniformHandle = "nat option"

text \<open>
  \<^verbatim>\<open>EmitArgs\<close>: the names given to the effect, the fragment builder (the code appended so
  far) and the uniform handler (the uniforms added so far). \<open>uniformName\<close> is the name the
  handler gives a uniform in the shader, which it chooses itself.
\<close>

record EmitArgs =
  outputColor :: string
  inputColor :: string
  coordName :: string
  uniformName :: "string \<Rightarrow> string"
  fragBuilder :: "fragment list"
  uniformHandler :: "(ShaderVarType \<times> string) list"

text \<open>The members of \<^verbatim>\<open>GLYUVTextureEffect\<close>; a handle is valid when it is not \<open>None\<close>.\<close>

record GLYUVTextureEffect =
  alphaStartUniform :: UniformHandle
  mat3ColorConversionUniform :: UniformHandle
  alphaStartPrev :: Point
  colorSpacePrev :: YUVColorSpace

definition codeAppend :: "fragment list \<Rightarrow> EmitArgs \<Rightarrow> EmitArgs" where
  "codeAppend items args = args\<lparr>fragBuilder := fragBuilder args @ items\<rparr>"

text \<open>
  \<^verbatim>\<open>uniformHandler->addUniform(ShaderFlags::Fragment, type, name, &outName)\<close>: the handle of
  the new uniform, its name in the shader and the arguments afterwards.
\<close>

definition addUniform :: "ShaderVarType \<Rightarrow> string \<Rightarrow> EmitArgs \<Rightarrow> UniformHandle \<times> string \<times> EmitArgs" where
  "addUniform type name args =
     (Some (length (uniformHandler args)), uniformName args name,
      args\<lparr>uniformHandler := uniformHandler args @ [(type, name)]\<rparr>)"

definition emitCode :: "GLYUVTextureEffect \<Rightarrow> YUVTextureEffect \<Rightarrow> EmitArgs \<Rightarrow> GLYUVTextureEffect \<times> EmitArgs" where
  "emitCode effect yuvFP args0 =
     (let yuvTexture = texture yuvFP;
          args1 = codeAppend [Code ''vec3 yuv;'', Code ''yuv.x = '',
                    TextureLookup 0 (coordName args0), Code ''.r;''] args0;
          args2 =
            (if pixelFormat yuvTexture = I420 then
               codeAppend [Code ''yuv.y = '', TextureLookup 1 (coordName args1), Code ''.r;'',
                           Code ''yuv.z = '', TextureLookup 2 (coordName args1), Code ''.r;''] args1
             else if pixelFormat yuvTexture = NV12 then
               codeAppend [Code ''yuv.yz = '', TextureLookup 1 (coordName args1), Code ''.ra;''] args1
             else args1);
          args3 =
            (if IsLimitedYUVColorRange (colorSpace (texture yuvFP))
             then codeAppend [Code ''yuv.x -= (16.0 / 255.0);''] args2 else args2);
          args4 = codeAppend [Code ''yuv.yz -= vec2(0.5, 0.5);''] args3;
          (mat3Handle, mat3Name, args5) = addUniform Float3x3 ''Mat3ColorConversion'' args4;
          effect1 = effect\<lparr>mat3ColorConversionUniform := mat3Handle\<rparr>;
          args6 = codeAppend [Code (''vec3 rgb = clamp('' @ mat3Name @ '' * yuv, 0.0, 1.0);'')] args5
      in if alphaStart yuvFP = PointZero then
           (effect1,
            codeAppend [Code (outputColor args6 @ '' = vec4(rgb, 1.0) * '' @ inputColor args6 @ '';'')]
              args6)
         else
           (let (alphaHandle, alphaStartName, args7) = addUniform Float2 ''AlphaStart'' args6;
                effect2 = effect1\<lparr>alphaStartUniform := alphaHandle\<rparr>;
                alphaVertexColor = ''alphaVertexColor''
            in (effect2,
                codeAppend
                  [Code (''vec2 '' @ alphaVertexColor @ '' = '' @ coordName args7 @ '' + ''
                         @ alphaStartName @ '';''),
                   Code ''float yuv_a = '', TextureLookup 0 alphaVertexColor, Code ''.r;'',
                   Comment 1, Comment 2,
                   Code ''yuv_a = (yuv_a - 16.0/255.0) / (219.0/255.0 - 1.0/255.0);'',
                   Code ''yuv_a = clamp(yuv_a, 0.0, 1.0);'',
                   Code (outputColor args7 @ '' = vec4(rgb * yuv_a, yuv_a) * ''
                         @ inputColor args7 @ '';'')]
                  args7)))"

text \<open>
  The two statements that the alpha branch emits for the alpha sample, read over the exact
  rationals: \<^verbatim>\<open>yuv_a = (yuv_a - 16.0/255.0) / (219.0/255.0 - 1.0/255.0);\<close> and
  \<^verbatim>\<open>yuv_a = clamp(yuv_a, 0.0, 1.0);\<close>, where GLSL's \<^verbatim>\<open>clamp(x, lo, hi)\<close> is
  \<^verbatim>\<open>min(max(x, lo), hi)\<close>. The GPU evaluates them in floating point; its rounding is not
  part of this model.
\<close>

definition clamp :: "rat \<Rightarrow> rat \<Rightarrow> rat \<Rightarrow> rat" where
  "clamp v lo hi = min (max v lo) hi"

definition alphaRescale :: "rat \<Rightarrow> rat" where
  "alphaRescale yuv_a = (yuv_a - 16 / 255) / (219 / 255 - 1 / 255)"

definition alphaCorrection :: "rat \<Rightarrow> rat" where
  "alphaCorrection yuv_a = clamp (alphaRescale yuv_a) 0 1"

section \<open>YUV texture effect: uniform upload\<close>

text \<open>
  The seven conversion matrices, nine coefficients each in the order of the source. A
  coefficient stands for the \<^verbatim>\<open>float\<close> literal of the source and is written as the decimal
  the literal denotes.
\<close>

definition ColorConversion601LimitRange :: "rat list" where
  "ColorConversion601LimitRange =
     [1.164384, 1.164384, 1.164384, 0.0, -0.391762, 2.017232, 1.596027, -0.812968, 0.0]"

definition ColorConversion601FullRange :: "rat list" where
  "ColorConversion601FullRange =
     [1.0, 1.0, 1.0, 0.0, -0.344136, 1.772, 1.402, -0.714136, 0.0]"

definition ColorConversion709LimitRange :: "rat list" where
  "ColorConversion709LimitRange =
     [1.164384, 1.164384, 1.164384, 0.0, -0.213249, 2.112402, 1.792741, -0.532909, 0.0]"

definition ColorConversion709FullRange :: "rat list" where
  "ColorConversion709FullRange =
     [1.0, 1.0, 1.0, 0.0, -0.187324, 1.8556, 1.5748, -0.468124, 0.0]"

definition ColorConversion2020LimitRange :: "rat list" where
  "ColorConversion2020LimitRange =
     [1.164384, 1.164384, 1.164384, 0.0, -0.187326, 2.141772, 1.678674, -0.650424, 0.0]"

definition ColorConversion2020FullRange :: "rat list" where
  "ColorConversion2020FullRange =
     [1.0, 1.0, 1.0, 0.0, -0.164553, 1.8814, 1.4746, -0.571353, 0.0]"

definition ColorConversionJPEGFullRange :: "rat list" where
  "ColorConversionJPEGFullRange =
     [1.0, 1.0, 1.0, 0.0, -0.344136, 1.772000, 1.402, -0.714136, 0.0]"

text \<open>
  Modelled from the spec: \<^verbatim>\<open>ProgramDataManager\<close> is not among the sources. It holds the
  values bound to the uniforms of the program; an upload binds a value to a handle and is
  recorded in \<open>uploads\<close>, in order.
\<close>

datatype upload = Set2f UniformHandle rat rat | SetMatrix3f UniformHandle "rat list"

record ProgramData =
  float2s :: "UniformHandle \<Rightarrow> (rat \<times> rat) option"
  matrices :: "UniformHandle \<Rightarrow> rat list option"
  uploads :: "upload list"

definition set2f :: "UniformHandle \<Rightarrow> rat \<Rightarrow> rat \<Rightarrow> ProgramData \<Rightarrow> ProgramData" where
  "set2f handle v0 v1 pd =
     pd\<lparr>float2s := (float2s pd)(handle \<mapsto> (v0, v1)), uploads := uploads pd @ [Set2f handle v0 v1]\<rparr>"

definition setMatrix3f :: "UniformHandle \<Rightarrow> rat list \<Rightarrow> ProgramData \<Rightarrow> ProgramData" where
  "setMatrix3f handle matrix pd =
     pd\<lparr>matrices := (matrices pd)(handle \<mapsto> matrix), uploads := uploads pd @ [SetMatrix3f handle matrix]\<rparr>"

text \<open>The \<^verbatim>\<open>switch\<close> of \<^verbatim>\<open>onSetData\<close>; the last equation is its \<^verbatim>\<open>default: break;\<close>.\<close>

fun uploadColorConversion :: "UniformHandle \<Rightarrow> YUVColorSpace \<Rightarrow> ProgramData \<Rightarrow> ProgramData" where
  "uploadColorConversion h BT601_LIMITED pd = setMatrix3f h ColorConversion601LimitRange pd"
| "uploadColorConversion h BT601_FULL pd = setMatrix3f h ColorConversion601FullRange pd"
| "uploadColorConversion h BT709_LIMITED pd = setMatrix3f h ColorConversion709LimitRange pd"
| "uploadColorConversion h BT709_FULL pd = setMatrix3f h ColorConversion709FullRange pd"
| "uploadColorConversion h BT2020_LIMITED pd = setMatrix3f h ColorConversion2020LimitRange pd"
| "uploadColorConversion h BT2020_FULL pd = setMatrix3f h ColorConversion2020FullRange pd"
| "uploadColorConversion h JPEG_FULL pd = setMatrix3f h ColorConversionJPEGFullRange pd"
| "uploadColorConversion h (OtherColorSpace v) pd = pd"

definition onSetData :: "GLYUVTextureEffect \<Rightarrow> ProgramData \<Rightarrow> YUVTextureEffect \<Rightarrow> GLYUVTextureEffect \<times> ProgramData" where
  "onSetData effect programDataManager yuvFP =
     (let (effect1, pd1) =
            (if alphaStartUniform effect \<noteq> None then
               (let alphaStart' = getTextureCoord (texture yuvFP)
                                    (pointX (alphaStart yuvFP)) (pointY (alphaStart yuvFP))
                in if alphaStart' \<noteq> alphaStartPrev effect
                   then (effect\<lparr>alphaStartPrev := alphaStart'\<rparr>,
                         set2f (alphaStartUniform effect) (pointX alphaStart') (pointY alphaStart')
                           programDataManager)
                   else (effect, programDataManager))
             else (effect, programDataManager))
      in if colorSpace (texture yuvFP) \<noteq> colorSpacePrev effect1
         then (effect1\<lparr>colorSpacePrev := colorSpace (texture yuvFP)\<rparr>,
               uploadColorConversion (mat3ColorConversionUniform effect1)
                 (colorSpace (texture yuvFP)) pd1)
         else (effect1, pd1))"

section \<open>Notions used in the statements\<close>

text \<open>The test that guards \<^verbatim>\<open>bitmap.eraseAll()\<close> in the inner loop, by name.\<close>

definition clears :: "bool \<Rightarrow> bool \<Rightarrow> ImageCodec \<Rightarrow> Pixmap \<Rightarrow> bool" where
  "clears firstRead key c bm =
     (firstRead \<and> key \<and> \<not> (codecWidth c = width bm \<and> codecHeight c = height bm))"

text \<open>The byte offset \<^verbatim>\<open>bitmap.rowBytes() * bitmapRect->y + bitmapRect->x * 4\<close>, by name.\<close>

definition offsetOf :: "Pixmap \<Rightarrow> BitmapRect \<Rightarrow> int" where
  "offsetOf bm r = int (rowBytes bm) * rectY r + rectX r * 4"

text \<open>Two pixel buffers of the same width, height and byte count.\<close>

definition sameShape :: "Pixmap \<Rightarrow> Pixmap \<Rightarrow> bool" where
  "sameShape a b = (width a = width b \<and> height a = height b \<and> length (pixels a) = length (pixels b))"

text \<open>The decoded image is exactly as wide and as high as the canvas.\<close>

definition sameSize :: "ImageCodec \<Rightarrow> Pixmap \<Rightarrow> bool" where
  "sameSize c bm = (codecWidth c = width bm \<and> codecHeight c = height bm)"

text \<open>The effect is a write to \<^verbatim>\<open>lastDecodeFrame\<close>.\<close>

fun marksFrame :: "effect \<Rightarrow> bool" where
  "marksFrame (SetLastDecodeFrame f) = True"
| "marksFrame e = False"

text \<open>The effect is a \<^verbatim>\<open>readPixels\<close> call that returned false.\<close>

fun readFailed :: "effect \<Rightarrow> bool" where
  "readFailed (ReadPixels off ok) = (\<not> ok)"
| "readFailed e = False"

text \<open>The effect is a \<^verbatim>\<open>readPixels\<close> call.\<close>

fun isReadPixels :: "effect \<Rightarrow> bool" where
  "isReadPixels (ReadPixels off ok) = True"
| "isReadPixels e = False"

text \<open>What processing one patch successfully does: make the codec and, unless there is
  none, read its pixels at the offset of the patch.\<close>

definition patchEffects :: "(byte list \<Rightarrow> ImageCodec option) \<Rightarrow> Pixmap \<Rightarrow> BitmapRect \<Rightarrow> effect list" where
  "patchEffects mk bm r =
     (case mk (fileBytes r) of
        None \<Rightarrow> [MakeCodec (fileBytes r)]
      | Some c \<Rightarrow> [MakeCodec (fileBytes r), ReadPixels (offsetOf bm r) True])"

text \<open>The patches of the frames \<open>start\<close> to \<open>target\<close>, in replay order.\<close>

definition replayedRects :: "BitmapFrame list \<Rightarrow> int \<Rightarrow> int \<Rightarrow> BitmapRect list" where
  "replayedRects fs start target = concat (map (\<lambda>i. bitmaps (fs ! i)) [nat start..<nat (target + 1)])"

text \<open>The codec of the first patch of a frame for which the library returns one.\<close>

fun firstCodec :: "(byte list \<Rightarrow> ImageCodec option) \<Rightarrow> BitmapRect list \<Rightarrow> ImageCodec option" where
  "firstCodec mk [] = None"
| "firstCodec mk (r # rs) = (case mk (fileBytes r) of None \<Rightarrow> firstCodec mk rs | Some c \<Rightarrow> Some c)"

text \<open>The effects of a run, whether it ends in a result or in a fault.\<close>

definition effectsOf :: "(fault \<times> effect list) + ('a \<times> 'b \<times> effect list) \<Rightarrow> effect list" where
  "effectsOf r = (case r of Inl (f, tr) \<Rightarrow> tr | Inr (a, b, tr) \<Rightarrow> tr)"

text \<open>The call has returned a buffer.\<close>

definition returnsBuffer :: "(fault \<times> effect list) + (Pixmap option \<times> BitmapSequenceReader \<times> effect list) \<Rightarrow> bool" where
  "returnsBuffer r = (case r of Inl e \<Rightarrow> False | Inr (res, rd, tr) \<Rightarrow> res \<noteq> None)"

text \<open>The effects of the inner loop on one frame, entered with \<^verbatim>\<open>firstRead = true\<close> on the
  canvas \<open>bm\<close>, up to the end of the frame, a failed \<^verbatim>\<open>readPixels\<close> or a fault.\<close>

definition frameEffects :: "(byte list \<Rightarrow> ImageCodec option) \<Rightarrow> Pixmap \<Rightarrow> BitmapFrame \<Rightarrow> effect list" where
  "frameEffects mk bm f = effectsOf (decodeRects mk (isKeyframe f) (bitmaps f) True bm)"

text \<open>The inner loop on one frame runs to the end of the frame: no \<^verbatim>\<open>readPixels\<close> fails and
  there is no fault.\<close>

definition frameCompletes :: "(byte list \<Rightarrow> ImageCodec option) \<Rightarrow> Pixmap \<Rightarrow> BitmapFrame \<Rightarrow> bool" where
  "frameCompletes mk bm f =
     (case decodeRects mk (isKeyframe f) (bitmaps f) True bm of
        Inl e \<Rightarrow> False
      | Inr (ok, bm', tr) \<Rightarrow> ok)"

text \<open>The frames that a replay of \<open>fs\<close> reaches: every frame up to and including the first
  one on which the inner loop does not run to the end.\<close>

fun reachedFrames :: "(byte list \<Rightarrow> ImageCodec option) \<Rightarrow> Pixmap \<Rightarrow> BitmapFrame list \<Rightarrow> BitmapFrame list" where
  "reachedFrames mk bm [] = []"
| "reachedFrames mk bm (f # fs) = f # (if frameCompletes mk bm f then reachedFrames mk bm fs else [])"

text \<open>The frames \<open>start\<close> to \<open>target\<close> of the sequence that exist, in replay order.\<close>

definition replayedFrames :: "BitmapFrame list \<Rightarrow> int \<Rightarrow> int \<Rightarrow> BitmapFrame list" where
  "replayedFrames fs start target = drop (nat start) (take (nat (target + 1)) fs)"

text \<open>Byte \<open>i\<close> of the canvas lies in the region that patch \<open>r\<close> writes when it is read.\<close>

definition paints :: "(byte list \<Rightarrow> ImageCodec option) \<Rightarrow> Pixmap \<Rightarrow> BitmapRect \<Rightarrow> nat \<Rightarrow> bool" where
  "paints mk bm r i =
     (case mk (fileBytes r) of
        None \<Rightarrow> False
      | Some c \<Rightarrow> 0 \<le> offsetOf bm r \<and>
          inRows (nat (offsetOf bm r)) (rowBytes bm) (4 * codecWidth c) (codecHeight c) i)"

text \<open>Every byte of the canvas outside the region \<open>C\<close> is zero, that is transparent.\<close>

definition zeroOutside :: "(nat \<Rightarrow> bool) \<Rightarrow> Pixmap \<Rightarrow> bool" where
  "zeroOutside C bm = (\<forall>i<length (pixels bm). \<not> C i \<longrightarrow> pixels bm ! i = 0)"

text \<open>
  The matrix fixed for a colour-space tag, as a function of the tag alone: the seven arrays
  of the source for the seven tags that the \<^verbatim>\<open>switch\<close> names, none for any other tag.
\<close>

fun fixedMatrix :: "YUVColorSpace \<Rightarrow> rat list option" where
  "fixedMatrix BT601_LIMITED = Some ColorConversion601LimitRange"
| "fixedMatrix BT601_FULL = Some ColorConversion601FullRange"
| "fixedMatrix BT709_LIMITED = Some ColorConversion709LimitRange"
| "fixedMatrix BT709_FULL = Some ColorConversion709FullRange"
| "fixedMatrix BT2020_LIMITED = Some ColorConversion2020LimitRange"
| "fixedMatrix BT2020_FULL = Some ColorConversion2020FullRange"
| "fixedMatrix JPEG_FULL = Some ColorConversionJPEGFullRange"
| "fixedMatrix (OtherColorSpace v) = None"

text \<open>The upload is a \<^verbatim>\<open>setMatrix3f\<close> call.\<close>

fun isMatrixUpload :: "upload \<Rightarrow> bool" where
  "isMatrixUpload (SetMatrix3f h m) = True"
| "isMatrixUpload u = False"

text \<open>The first statement of \<^verbatim>\<open>onSetData\<close>, the upload of the alpha start, by name.\<close>

definition alphaUpload :: "GLYUVTextureEffect \<Rightarrow> ProgramData \<Rightarrow> YUVTextureEffect \<Rightarrow> GLYUVTextureEffect \<times> ProgramData" where
  "alphaUpload effect pd yuvFP =
     (if alphaStartUniform effect \<noteq> None then
        (let alphaStart' = getTextureCoord (texture yuvFP)
                             (pointX (alphaStart yuvFP)) (pointY (alphaStart yuvFP))
         in if alphaStart' \<noteq> alphaStartPrev effect
            then (effect\<lparr>alphaStartPrev := alphaStart'\<rparr>,
                  set2f (alphaStartUniform effect) (pointX alphaStart') (pointY alphaStart') pd)
            else (effect, pd))
      else (effect, pd))"

section \<open>Example inputs\<close>

text \<open>Five frames without patches; frames 0 and 2 are keyframes.\<close>

definition demoFrames :: "BitmapFrame list" where
  "demoFrames =
     [\<lparr>isKeyframe = True, bitmaps = []\<rparr>, \<lparr>isKeyframe = False, bitmaps = []\<rparr>,
      \<lparr>isKeyframe = True, bitmaps = []\<rparr>, \<lparr>isKeyframe = False, bitmaps = []\<rparr>,
      \<lparr>isKeyframe = False, bitmaps = []\<rparr>]"

text \<open>A codec library: no codec for empty bytes; a 1x1 image that cannot be read when the
  first byte is 0; a 1x1 image when it is 1; a 2x1 image otherwise. Every byte of a decoded
  image is the first byte of the patch.\<close>

definition demoCodecs :: "byte list \<Rightarrow> ImageCodec option" where
  "demoCodecs bytes =
     (case bytes of
        [] \<Rightarrow> None
      | b # rest \<Rightarrow>
          if b = 0 then Some \<lparr>codecWidth = 1, codecHeight = 1, decodes = False, decoded = (\<lambda>k. 0)\<rparr>
          else if b = 1 then Some \<lparr>codecWidth = 1, codecHeight = 1, decodes = True, decoded = (\<lambda>k. b)\<rparr>
          else Some \<lparr>codecWidth = 2, codecHeight = 1, decodes = True, decoded = (\<lambda>k. b)\<rparr>)"

text \<open>Four frames for a 2x1 canvas: two frames without keyframe flag that paint the left and
  the right pixel, a keyframe with an empty patch and a full-size patch, and a frame whose
  patch cannot be read.\<close>

definition demoSequence :: "BitmapFrame list" where
  "demoSequence =
     [\<lparr>isKeyframe = False, bitmaps = [\<lparr>rectX = 0, rectY = 0, fileBytes = [1]\<rparr>]\<rparr>,
      \<lparr>isKeyframe = False, bitmaps = [\<lparr>rectX = 1, rectY = 0, fileBytes = [1]\<rparr>]\<rparr>,
      \<lparr>isKeyframe = True, bitmaps = [\<lparr>rectX = 0, rectY = 0, fileBytes = []\<rparr>,
                                     \<lparr>rectX = 0, rectY = 0, fileBytes = [2]\<rparr>]\<rparr>,
      \<lparr>isKeyframe = False, bitmaps = [\<lparr>rectX = 1, rectY = 0, fileBytes = [0]\<rparr>]\<rparr>]"

text \<open>A 2x1 canvas with the given eight bytes.\<close>

definition demoCanvas :: "byte list \<Rightarrow> Pixmap" where
  "demoCanvas bytes = \<lparr>width = 2, height = 1, pixels = bytes\<rparr>"

text \<open>A reader of \<open>demoSequence\<close> with the given marker and canvas bytes.\<close>

definition demoReader :: "int \<Rightarrow> byte list \<Rightarrow> BitmapSequenceReader" where
  "demoReader marker bytes =
     \<lparr>frames = demoSequence, pixelBuffer = Some (demoCanvas bytes), lastDecodeFrame = marker\<rparr>"

text \<open>A keyframe whose first patch has no codec and whose second patch is 1x1, at the right pixel.\<close>

definition demoKeyframe :: BitmapFrame where
  "demoKeyframe =
     \<lparr>isKeyframe = True, bitmaps = [\<lparr>rectX = 0, rectY = 0, fileBytes = []\<rparr>,
                                     \<lparr>rectX = 1, rectY = 0, fileBytes = [1]\<rparr>]\<rparr>"

text \<open>Two frames for a 2x1 canvas: \<open>demoKeyframe\<close>, then a frame without keyframe flag that
  paints the right pixel again.\<close>

definition demoShrink :: "BitmapFrame list" where
  "demoShrink =
     [demoKeyframe, \<lparr>isKeyframe = False, bitmaps = [\<lparr>rectX = 1, rectY = 0, fileBytes = [1]\<rparr>]\<rparr>]"

text \<open>The codec that \<open>demoCodecs\<close> returns for the bytes \<open>[1]\<close>.\<close>

definition demoSmallCodec :: ImageCodec where
  "demoSmallCodec = \<lparr>codecWidth = 1, codecHeight = 1, decodes = True, decoded = (\<lambda>k. 1)\<rparr>"

text \<open>Three frames for a 2x1 canvas: a keyframe with a full-size patch, then the right and
  the left pixel.\<close>

definition demoAnchored :: "BitmapFrame list" where
  "demoAnchored =
     [\<lparr>isKeyframe = True, bitmaps = [\<lparr>rectX = 0, rectY = 0, fileBytes = [2]\<rparr>]\<rparr>,
      \<lparr>isKeyframe = False, bitmaps = [\<lparr>rectX = 1, rectY = 0, fileBytes = [1]\<rparr>]\<rparr>,
      \<lparr>isKeyframe = False, bitmaps = [\<lparr>rectX = 0, rectY = 0, fileBytes = [1]\<rparr>]\<rparr>]"

text \<open>A 1x1 canvas with the given four bytes.\<close>

definition demoPixel :: "byte list \<Rightarrow> Pixmap" where
  "demoPixel bytes = \<lparr>width = 1, height = 1, pixels = bytes\<rparr>"

text \<open>The codec that \<open>demoCodecs\<close> returns for the bytes \<open>[2]\<close>.\<close>

definition demoFullCodec :: ImageCodec where
  "demoFullCodec = \<lparr>codecWidth = 2, codecHeight = 1, decodes = True, decoded = (\<lambda>k. 2)\<rparr>"

text \<open>An I420 texture of 64x64 texels with the given colour space.\<close>

definition demoTexture :: "YUVColorSpace \<Rightarrow> YUVTexture" where
  "demoTexture cs = \<lparr>pixelFormat = I420, colorSpace = cs,
                      getTextureCoord = (\<lambda>x y. \<lparr>pointX = x / 64, pointY = y / 64\<rparr>)\<rparr>"

text \<open>An effect after \<^verbatim>\<open>emitCode\<close> without alpha plane, with the given cached colour space.\<close>

definition demoEffect :: "YUVColorSpace \<Rightarrow> GLYUVTextureEffect" where
  "demoEffect prev = \<lparr>alphaStartUniform = None, mat3ColorConversionUniform = Some 0,
                       alphaStartPrev = \<lparr>pointX = - 1, pointY = - 1\<rparr>, colorSpacePrev = prev\<rparr>"

text \<open>A program to which nothing has been uploaded.\<close>

definition demoProgram :: ProgramData where
  "demoProgram = \<lparr>float2s = Map.empty, matrices = Map.empty, uploads = []\<rparr>"

text \<open>Arguments of \<^verbatim>\<open>emitCode\<close> with empty builders; uniforms keep their names.\<close>

definition demoArgs :: EmitArgs where
  "demoArgs = \<lparr>outputColor = ''out'', inputColor = ''in'', coordName = ''uv'',
                uniformName = (\<lambda>n. n), fragBuilder = [], uniformHandler = []\<rparr>"

section \<open>Start-frame resolution: properties\<close>

text \<open>
  On a target inside the frame vector the backward scan returns a frame, which is the
  largest stopping index if there is one and 0 otherwise.
\<close>

lemma scan_result:
  "frame < int (length fs) \<Longrightarrow>
   \<exists>s. findStartFrame_scan fs l frame = Inr s \<and>
     ((\<exists>i. 0 \<le> i \<and> i \<le> frame \<and> (i = l + 1 \<or> isKeyframe (fs ! nat i))) \<longrightarrow>
         0 \<le> s \<and> s \<le> frame \<and> (s = l + 1 \<or> isKeyframe (fs ! nat s)) \<and>
           (\<forall>j. s < j \<and> j \<le> frame \<longrightarrow> \<not> (j = l + 1 \<or> isKeyframe (fs ! nat j)))) \<and>
     (\<not> (\<exists>i. 0 \<le> i \<and> i \<le> frame \<and> (i = l + 1 \<or> isKeyframe (fs ! nat i))) \<longrightarrow> s = 0)"
proof (induction fs l frame rule: findStartFrame_scan.induct)
  case (1 fs l frame)
  let ?P = "\<lambda>i. i = l + 1 \<or> isKeyframe (fs ! nat i)"
  show ?case
  proof (cases "frame \<ge> 0")
    case False
    then have "findStartFrame_scan fs l frame = Inr 0"
      by (subst findStartFrame_scan.simps) simp
    moreover from False have "\<not> (\<exists>i. 0 \<le> i \<and> i \<le> frame \<and> ?P i)" by auto
    ultimately show ?thesis by blast
  next
    case nonneg: True
    show ?thesis
    proof (cases "?P frame")
      case True
      with nonneg 1(2) have "findStartFrame_scan fs l frame = Inr frame"
        by (subst findStartFrame_scan.simps) auto
      moreover from True nonneg have "\<exists>i. 0 \<le> i \<and> i \<le> frame \<and> ?P i" by blast
      moreover have "\<forall>j. frame < j \<and> j \<le> frame \<longrightarrow> \<not> ?P j" by simp
      ultimately show ?thesis using True nonneg by blast
    next
      case False
      with nonneg 1(2) have eq: "findStartFrame_scan fs l frame = findStartFrame_scan fs l (frame - 1)"
        by (subst findStartFrame_scan.simps) auto
      from 1(2) have lt: "frame - 1 < int (length fs)" by simp
      from False nonneg 1(2) have ih: "\<exists>s. findStartFrame_scan fs l (frame - 1) = Inr s \<and>
        ((\<exists>i. 0 \<le> i \<and> i \<le> frame - 1 \<and> ?P i) \<longrightarrow>
           0 \<le> s \<and> s \<le> frame - 1 \<and> ?P s \<and> (\<forall>j. s < j \<and> j \<le> frame - 1 \<longrightarrow> \<not> ?P j)) \<and>
        (\<not> (\<exists>i. 0 \<le> i \<and> i \<le> frame - 1 \<and> ?P i) \<longrightarrow> s = 0)"
        by (intro 1(1)[OF _ _ _ _ lt]) auto
      then obtain s where
        s: "findStartFrame_scan fs l (frame - 1) = Inr s"
        and p: "(\<exists>i. 0 \<le> i \<and> i \<le> frame - 1 \<and> ?P i) \<longrightarrow>
           0 \<le> s \<and> s \<le> frame - 1 \<and> ?P s \<and> (\<forall>j. s < j \<and> j \<le> frame - 1 \<longrightarrow> \<not> ?P j)"
        and q: "\<not> (\<exists>i. 0 \<le> i \<and> i \<le> frame - 1 \<and> ?P i) \<longrightarrow> s = 0" by blast
      have step: "i \<le> frame - 1" if "i \<le> frame" "?P i" for i
      proof -
        from that False have "i \<noteq> frame" by blast
        with that(1) show ?thesis by simp
      qed
      have up: "i \<le> frame" if "i \<le> frame - 1" for i using that by simp
      show ?thesis
      proof (cases "\<exists>i. 0 \<le> i \<and> i \<le> frame - 1 \<and> ?P i")
        case ex: True
        with p have a: "0 \<le> s" "s \<le> frame - 1" "?P s" and b: "\<forall>j. s < j \<and> j \<le> frame - 1 \<longrightarrow> \<not> ?P j" by blast+
        have c: "\<forall>j. s < j \<and> j \<le> frame \<longrightarrow> \<not> ?P j" using b step by blast
        from a(2) have d: "s \<le> frame" by simp
        from ex up have ex': "\<exists>i. 0 \<le> i \<and> i \<le> frame \<and> ?P i" by blast
        have e: "findStartFrame_scan fs l frame = Inr s" using eq s by simp
        show ?thesis by (rule exI[of _ s]) (use e a(1) a(3) c d ex' in blast)
      next
        case nex: False
        with q have z: "s = 0" by simp
        from nex step have nex': "\<not> (\<exists>i. 0 \<le> i \<and> i \<le> frame \<and> ?P i)" by blast
        have e: "findStartFrame_scan fs l frame = Inr s" using eq s by simp
        show ?thesis by (rule exI[of _ s]) (use e z nex' in blast)
      qed
    qed
  qed
qed

lemma scan_next:
  "0 \<le> frame \<Longrightarrow> frame = l + 1 \<Longrightarrow> findStartFrame_scan fs l frame = Inr frame"
  by (subst findStartFrame_scan.simps) simp



text \<open>
  C1. For a target frame inside the frame vector and any marker, \<open>findStartFrame\<close>
  returns the largest index \<open>s\<close> with \<open>0 \<le> s \<le> targetFrame\<close> such that \<open>s\<close> is the
  marker plus one or frame \<open>s\<close> is a keyframe, and returns 0 when no index of that range
  is such. The marker test comes before the keyframe test: a non-negative target equal to
  the marker plus one is returned without the frame vector being read, even beyond its end.
\<close>

theorem findStartFrame_largest:
  "(targetFrame < int (length (frames reader)) \<longrightarrow>
      (\<exists>s. findStartFrame reader targetFrame = Inr s \<and>
         ((\<exists>i. 0 \<le> i \<and> i \<le> targetFrame \<and>
               (i = lastDecodeFrame reader + 1 \<or> isKeyframe (frames reader ! nat i))) \<longrightarrow>
            0 \<le> s \<and> s \<le> targetFrame \<and>
            (s = lastDecodeFrame reader + 1 \<or> isKeyframe (frames reader ! nat s)) \<and>
            (\<forall>j. s < j \<and> j \<le> targetFrame \<longrightarrow>
                 \<not> (j = lastDecodeFrame reader + 1 \<or> isKeyframe (frames reader ! nat j)))) \<and>
         (\<not> (\<exists>i. 0 \<le> i \<and> i \<le> targetFrame \<and>
               (i = lastDecodeFrame reader + 1 \<or> isKeyframe (frames reader ! nat i))) \<longrightarrow>
            s = 0))) \<and>
   (0 \<le> targetFrame \<and> targetFrame = lastDecodeFrame reader + 1 \<longrightarrow>
      findStartFrame reader targetFrame = Inr targetFrame)"
  unfolding findStartFrame_def
  using scan_result [of targetFrame "frames reader" "lastDecodeFrame reader"]
        scan_next [of targetFrame "lastDecodeFrame reader" "frames reader"]
  by blast

theorem findStartFrame_largest_witness:
  "(4::int) < int (length (frames \<lparr>frames = demoFrames, pixelBuffer = None, lastDecodeFrame = - 1\<rparr>)) \<and>
   (\<exists>i. 0 \<le> i \<and> i \<le> (4::int) \<and> isKeyframe (demoFrames ! nat i)) \<and>
   (\<exists>s. findStartFrame \<lparr>frames = demoFrames, pixelBuffer = None, lastDecodeFrame = - 1\<rparr> 4 = Inr s \<and>
        0 \<le> s \<and> s \<le> 4 \<and> (s = 0 \<or> isKeyframe (demoFrames ! nat s))) \<and>
   findStartFrame \<lparr>frames = demoFrames, pixelBuffer = None, lastDecodeFrame = 6\<rparr> 7 = Inr 7"
proof -
  let ?r = "\<lparr>frames = demoFrames, pixelBuffer = None, lastDecodeFrame = - 1\<rparr>"
  have h1: "(4::int) < int (length (frames ?r))" by (simp add: demoFrames_def)
  have h2: "\<exists>i. 0 \<le> i \<and> i \<le> (4::int) \<and> isKeyframe (demoFrames ! nat i)"
    by (rule exI [of _ 2]) (simp add: demoFrames_def)
  then have h2': "\<exists>i. 0 \<le> i \<and> i \<le> (4::int) \<and>
      (i = lastDecodeFrame ?r + 1 \<or> isKeyframe (frames ?r ! nat i))" by auto
  from findStartFrame_largest [of 4 ?r] h1 h2'
  have "\<exists>s. findStartFrame ?r 4 = Inr s \<and> 0 \<le> s \<and> s \<le> 4 \<and>
            (s = lastDecodeFrame ?r + 1 \<or> isKeyframe (frames ?r ! nat s))" by blast
  then have c1: "\<exists>s. findStartFrame ?r 4 = Inr s \<and> 0 \<le> s \<and> s \<le> 4 \<and>
            (s = 0 \<or> isKeyframe (demoFrames ! nat s))" by simp
  have c2: "findStartFrame \<lparr>frames = demoFrames, pixelBuffer = None, lastDecodeFrame = 6\<rparr> 7 = Inr 7"
    using findStartFrame_largest [of 7 "\<lparr>frames = demoFrames, pixelBuffer = None, lastDecodeFrame = 6\<rparr>"]
    by simp
  from h1 h2 c1 c2 show ?thesis by blast
qed

section \<open>Replay: one step of the inner loop\<close>

lemma withEffects_simps [simp]:
  "withEffects es (Inl (f, tr)) = Inl (f, es @ tr)"
  "withEffects es (Inr (ok, bm, tr)) = Inr (ok, bm, es @ tr)"
  by (simp_all add: withEffects_def)

lemma withEffects_Inr:
  "withEffects es r = Inr (ok, bm, tr) \<longleftrightarrow> (\<exists>tr0. r = Inr (ok, bm, tr0) \<and> tr = es @ tr0)"
  by (cases r) (auto simp: withEffects_def)

lemma readPixels_Inr_False:
  "readPixels c bm off = Inr (False, bm') \<longleftrightarrow> (\<not> decodes c \<and> bm' = bm)"
  by (auto simp: readPixels_def)

lemma readPixels_Inr_True:
  "readPixels c bm off = Inr (True, bm') \<longleftrightarrow>
     (decodes c \<and> fits off (rowBytes bm) (4 * codecWidth c) (codecHeight c) (length (pixels bm)) \<and>
      bm' = bm\<lparr>pixels := copyRows (decoded c) (4 * codecWidth c) (rowBytes bm) (nat off)
               (codecHeight c) (pixels bm)\<rparr>)"
  by (auto simp: readPixels_def)

lemma rowBytes_eraseAll [simp]: "rowBytes (eraseAll bm) = rowBytes bm"
  by (simp add: rowBytes_def eraseAll_def)

lemma decodeRects_Cons_cases:
  assumes "decodeRects mk key (r # rs) fr bm = Inr (ok, bm', tr)"
  obtains
    (null) tr0 where "mk (fileBytes r) = None"
      "decodeRects mk key rs fr bm = Inr (ok, bm', tr0)"
      "tr = MakeCodec (fileBytes r) # tr0"
  | (failed) c where "mk (fileBytes r) = Some c" "\<not> decodes c" "\<not> ok"
      "bm' = (if clears fr key c bm then eraseAll bm else bm)"
      "tr = MakeCodec (fileBytes r) # (if clears fr key c bm then [EraseAll] else [])
              @ [ReadPixels (offsetOf bm r) False]"
  | (painted) c bm2 tr0 where "mk (fileBytes r) = Some c"
      "readPixels c (if clears fr key c bm then eraseAll bm else bm) (offsetOf bm r) = Inr (True, bm2)"
      "decodeRects mk key rs False bm2 = Inr (ok, bm', tr0)"
      "tr = MakeCodec (fileBytes r) # (if clears fr key c bm then [EraseAll] else [])
              @ ReadPixels (offsetOf bm r) True # tr0"
proof (cases "mk (fileBytes r)")
  case None
  with assms show ?thesis
    by (auto simp: decodeRects.simps(2) withEffects_Inr intro: null)
next
  case (Some c)
  let ?bm1 = "if clears fr key c bm then eraseAll bm else bm"
  have off: "int (rowBytes ?bm1) * rectY r + rectX r * 4 = offsetOf bm r"
    by (simp add: offsetOf_def)
  show ?thesis
  proof (cases "readPixels c ?bm1 (offsetOf bm r)")
    case (Inl f)
    with assms Some show ?thesis
      by (simp add: decodeRects.simps(2) Let_def clears_def offsetOf_def split: if_splits)
  next
    case (Inr p)
    obtain res bm2 where p: "p = (res, bm2)" by (cases p)
    show ?thesis
    proof (cases res)
      case True
      with assms Some Inr p obtain tr0 where
        "decodeRects mk key rs False bm2 = Inr (ok, bm', tr0)"
        "tr = MakeCodec (fileBytes r) # (if clears fr key c bm then [EraseAll] else [])
              @ ReadPixels (offsetOf bm r) True # tr0"
        by (auto simp: decodeRects.simps(2) Let_def clears_def offsetOf_def withEffects_Inr
            split: if_splits)
      with Some Inr p True show ?thesis by (auto intro: painted)
    next
      case False
      with Inr p have "\<not> decodes c" "bm2 = ?bm1" by (simp_all add: readPixels_Inr_False)
      moreover from assms Some Inr p False have "\<not> ok" "bm' = bm2"
        "tr = MakeCodec (fileBytes r) # (if clears fr key c bm then [EraseAll] else [])
              @ [ReadPixels (offsetOf bm r) False]"
        by (auto simp: decodeRects.simps(2) Let_def clears_def offsetOf_def split: if_splits)
      ultimately show ?thesis using Some by (auto intro: failed)
    qed
  qed
qed

lemma decodeRects_null:
  "mk (fileBytes r) = None \<Longrightarrow>
   decodeRects mk key (r # rs) fr bm =
     withEffects [MakeCodec (fileBytes r)] (decodeRects mk key rs fr bm)"
  by (simp add: decodeRects.simps(2))

lemma decodeRects_codec:
  "mk (fileBytes r) = Some c \<Longrightarrow>
   decodeRects mk key (r # rs) fr bm =
     (case readPixels c (if clears fr key c bm then eraseAll bm else bm) (offsetOf bm r) of
        Inl f \<Rightarrow> Inl (f, MakeCodec (fileBytes r) # (if clears fr key c bm then [EraseAll] else []))
      | Inr (res, bm2) \<Rightarrow>
          if \<not> res
          then Inr (False, bm2, MakeCodec (fileBytes r) # (if clears fr key c bm then [EraseAll] else [])
                 @ [ReadPixels (offsetOf bm r) False])
          else withEffects (MakeCodec (fileBytes r) # (if clears fr key c bm then [EraseAll] else [])
                 @ [ReadPixels (offsetOf bm r) True]) (decodeRects mk key rs False bm2))"
  by (auto simp: decodeRects.simps(2) Let_def clears_def offsetOf_def split: sum.splits)

section \<open>The pixel buffer keeps its shape\<close>

lemma sameShape_refl [simp]: "sameShape a a"
  by (simp add: sameShape_def)

lemma sameShape_trans: "sameShape a b \<Longrightarrow> sameShape b c \<Longrightarrow> sameShape a c"
  by (simp add: sameShape_def)

lemma sameShape_eraseAll [simp]: "sameShape (eraseAll bm) bm"
  by (simp add: sameShape_def eraseAll_def)

lemma length_putRow:
  "pos + length row \<le> length buf \<Longrightarrow> length (putRow pos row buf) = length buf"
  by (simp add: putRow_def)

lemma nth_putRow:
  "pos + length row \<le> length buf \<Longrightarrow> i < length buf \<Longrightarrow>
   putRow pos row buf ! i = (if pos \<le> i \<and> i < pos + length row then row ! (i - pos) else buf ! i)"
  by (auto simp: putRow_def nth_append)

lemma row_fits:
  assumes "off + n * stride + w \<le> (len::nat)"
  shows "n = 0 \<or> off + (n - 1) * stride + w \<le> len"
proof (cases n)
  case 0 then show ?thesis by simp
next
  case (Suc m)
  have "m * stride \<le> Suc m * stride" by simp
  with assms Suc show ?thesis by simp
qed

lemma length_copyRows:
  "n = 0 \<or> off + (n - 1) * stride + w \<le> length buf \<Longrightarrow>
   length (copyRows src w stride off n buf) = length buf"
proof (induction n)
  case 0
  then show ?case by simp
next
  case (Suc n)
  then have b: "off + n * stride + w \<le> length buf" by simp
  from row_fits [OF b] Suc.IH have "length (copyRows src w stride off n buf) = length buf" by blast
  with b show ?case by (simp add: length_putRow)
qed

lemma inRows_Suc:
  "inRows off stride w (Suc n) i \<longleftrightarrow>
     inRows off stride w n i \<or> (off + n * stride \<le> i \<and> i < off + n * stride + w)"
  by (auto simp: inRows_def less_Suc_eq)

lemma nth_copyRows_outside:
  "n = 0 \<or> off + (n - 1) * stride + w \<le> length buf \<Longrightarrow> i < length buf \<Longrightarrow>
   \<not> inRows off stride w n i \<Longrightarrow> copyRows src w stride off n buf ! i = buf ! i"
proof (induction n)
  case 0
  then show ?case by simp
next
  case (Suc n)
  then have b: "off + n * stride + w \<le> length buf" by simp
  note f = row_fits [OF b]
  from Suc.prems(3) have out: "\<not> inRows off stride w n i"
    and row: "\<not> (off + n * stride \<le> i \<and> i < off + n * stride + w)"
    by (simp_all add: inRows_Suc)
  have len: "length (copyRows src w stride off n buf) = length buf" by (rule length_copyRows [OF f])
  have "copyRows src w stride off (Suc n) buf ! i = copyRows src w stride off n buf ! i"
    using b len Suc.prems(2) row by (auto simp: nth_putRow)
  with Suc.IH [OF f Suc.prems(2) out] show ?case by simp
qed


lemma fits_nat:
  "fits off stride w n len \<Longrightarrow> 0 < w \<Longrightarrow> n = 0 \<or> nat off + (n - 1) * stride + w \<le> len"
  by (auto simp: fits_def)

lemma copyRows_empty_rows [simp]: "copyRows src 0 stride off n buf = buf"
  by (induction n) (simp_all add: putRow_def)

lemma readPixels_shape:
  assumes "readPixels c bm off = Inr (res, bm')"
  shows "sameShape bm' bm"
proof (cases res)
  case False
  with assms show ?thesis by (simp add: readPixels_Inr_False)
next
  case True
  with assms have fit: "fits off (rowBytes bm) (4 * codecWidth c) (codecHeight c) (length (pixels bm))"
    and eq: "bm' = bm\<lparr>pixels := copyRows (decoded c) (4 * codecWidth c) (rowBytes bm) (nat off)
               (codecHeight c) (pixels bm)\<rparr>"
    by (simp_all add: readPixels_Inr_True)
  show ?thesis
  proof (cases "codecWidth c = 0")
    case True
    with eq show ?thesis by (simp add: sameShape_def)
  next
    case False
    with fits_nat [OF fit] have "codecHeight c = 0 \<or>
        nat off + (codecHeight c - 1) * rowBytes bm + 4 * codecWidth c \<le> length (pixels bm)" by simp
    from length_copyRows [OF this] eq show ?thesis by (simp add: sameShape_def)
  qed
qed

lemma decodeRects_shape:
  "decodeRects mk key rs fr bm = Inr (ok, bm', tr) \<Longrightarrow> sameShape bm' bm"
proof (induction rs arbitrary: fr bm tr)
  case Nil
  then show ?case by simp
next
  case (Cons r rs)
  from Cons.prems show ?case
  proof (cases rule: decodeRects_Cons_cases)
    case (null tr0)
    then show ?thesis using Cons.IH by blast
  next
    case (failed c)
    then show ?thesis by simp
  next
    case (painted c bm2 tr0)
    from readPixels_shape [OF painted(2)] have "sameShape bm2 bm"
      by (auto split: if_splits intro: sameShape_trans [OF _ sameShape_eraseAll])
    with Cons.IH [OF painted(3)] show ?thesis by (blast intro: sameShape_trans)
  qed
qed


section \<open>The effects of a replay\<close>

lemma offsetOf_shape: "sameShape a b \<Longrightarrow> offsetOf a r = offsetOf b r"
  by (simp add: sameShape_def offsetOf_def rowBytes_def)

lemma patchEffects_shape: "sameShape a b \<Longrightarrow> patchEffects mk a = patchEffects mk b"
  by (rule ext) (simp add: patchEffects_def offsetOf_shape [of a b] split: option.splits)

lemma decodeRects_effects:
  "decodeRects mk key rs fr bm = Inr (ok, bm', tr) \<Longrightarrow>
   \<not> list_ex marksFrame tr \<and> (list_ex readFailed tr \<longleftrightarrow> \<not> ok) \<and>
   (ok \<longrightarrow> filter (\<lambda>e. e \<noteq> EraseAll) tr = concat (map (patchEffects mk bm) rs))"
proof (induction rs arbitrary: fr bm tr)
  case Nil
  then show ?case by auto
next
  case (Cons r rs)
  from Cons.prems show ?case
  proof (cases rule: decodeRects_Cons_cases)
    case (null tr0)
    from Cons.IH [OF null(2)] null(1,3) show ?thesis
      by (simp add: patchEffects_def)
  next
    case (failed c)
    then show ?thesis by simp
  next
    case (painted c bm2 tr0)
    from readPixels_shape [OF painted(2)] have "sameShape bm2 bm"
      by (auto split: if_splits intro: sameShape_trans [OF _ sameShape_eraseAll])
    then have pe: "patchEffects mk bm2 = patchEffects mk bm" by (rule patchEffects_shape)
    from Cons.IH [OF painted(3)] painted(1,4) pe show ?thesis
      by (simp add: patchEffects_def)
  qed
qed

lemma replayedRects_done: "target < frame \<Longrightarrow> replayedRects fs frame target = []"
  by (simp add: replayedRects_def)

lemma replayedRects_step:
  assumes "0 \<le> frame" "frame \<le> target"
  shows "replayedRects fs frame target = bitmaps (fs ! nat frame) @ replayedRects fs (frame + 1) target"
proof -
  from assms have "nat frame < nat (target + 1)" by simp
  then have "[nat frame..<nat (target + 1)] = nat frame # [Suc (nat frame)..<nat (target + 1)]"
    by (rule upt_conv_Cons)
  moreover from assms have "nat (frame + 1) = Suc (nat frame)" by simp
  ultimately show ?thesis by (simp add: replayedRects_def)
qed

lemma decodeFrames_cases:
  assumes "decodeFrames mk fs frame target bm = Inr (ok, bm', tr)"
  obtains
    (finished) "target < frame" "ok" "bm' = bm" "tr = []"
  | (failed) "frame \<le> target" "0 \<le> frame" "frame < int (length fs)" "\<not> ok"
      "decodeRects mk (isKeyframe (fs ! nat frame)) (bitmaps (fs ! nat frame)) True bm
         = Inr (False, bm', tr)"
  | (continued) bm1 tr1 tr0 where "frame \<le> target" "0 \<le> frame" "frame < int (length fs)"
      "decodeRects mk (isKeyframe (fs ! nat frame)) (bitmaps (fs ! nat frame)) True bm
         = Inr (True, bm1, tr1)"
      "decodeFrames mk fs (frame + 1) target bm1 = Inr (ok, bm', tr0)"
      "tr = tr1 @ tr0"
proof (cases "frame \<le> target")
  case False
  with assms show ?thesis by (auto simp: decodeFrames.simps [of mk fs frame] intro: finished)
next
  case le: True
  with assms have range: "0 \<le> frame" "frame < int (length fs)"
    by (auto simp: decodeFrames.simps [of mk fs frame] split: if_splits)
  let ?f = "fs ! nat frame"
  from assms le range obtain ok1 bm1 tr1 where
    d: "decodeRects mk (isKeyframe ?f) (bitmaps ?f) True bm = Inr (ok1, bm1, tr1)"
    by (auto simp: decodeFrames.simps [of mk fs frame] split: sum.splits)
  show ?thesis
  proof (cases ok1)
    case False
    with assms le range d have "\<not> ok" "bm' = bm1" "tr = tr1"
      by (simp_all add: decodeFrames.simps [of mk fs frame])
    with le range d False show ?thesis by (auto intro: failed)
  next
    case True
    with assms le range d obtain tr0 where
      "decodeFrames mk fs (frame + 1) target bm1 = Inr (ok, bm', tr0)" "tr = tr1 @ tr0"
      by (auto simp: decodeFrames.simps [of mk fs frame] withEffects_Inr)
    with le range d True show ?thesis by (auto intro: continued)
  qed
qed

lemma decodeFrames_effects:
  "0 \<le> frame \<Longrightarrow> decodeFrames mk fs frame target bm = Inr (ok, bm', tr) \<Longrightarrow>
   \<not> list_ex marksFrame tr \<and> (list_ex readFailed tr \<longleftrightarrow> \<not> ok) \<and>
   (ok \<longrightarrow> filter (\<lambda>e. e \<noteq> EraseAll) tr
            = concat (map (patchEffects mk bm) (replayedRects fs frame target)))"
proof (induction mk fs frame target bm arbitrary: tr rule: decodeFrames.induct)
  case (1 mk fs frame target bm)
  from 1(3) show ?case
  proof (cases rule: decodeFrames_cases)
    case finished
    then show ?thesis by (simp add: replayedRects_done)
  next
    case failed
    from decodeRects_effects [OF failed(5)] failed(4) show ?thesis by simp
  next
    case (continued bm1 tr1 tr0)
    have range: "\<not> (frame < 0 \<or> int (length fs) \<le> frame)" using continued(2,3) by simp
    have nn: "\<not> \<not> True" by simp
    from continued(2) have "0 \<le> frame + 1" by simp
    from 1(1) [OF continued(1) range continued(4) refl refl nn this continued(5)]
    have ih: "\<not> list_ex marksFrame tr0" "list_ex readFailed tr0 \<longleftrightarrow> \<not> ok"
      "ok \<longrightarrow> filter (\<lambda>e. e \<noteq> EraseAll) tr0
            = concat (map (patchEffects mk bm1) (replayedRects fs (frame + 1) target))"
      by blast+
    from decodeRects_effects [OF continued(4)]
    have fr: "\<not> list_ex marksFrame tr1" "\<not> list_ex readFailed tr1"
      "filter (\<lambda>e. e \<noteq> EraseAll) tr1
         = concat (map (patchEffects mk bm) (bitmaps (fs ! nat frame)))"
      by simp_all
    from decodeRects_shape [OF continued(4)] have "patchEffects mk bm1 = patchEffects mk bm"
      by (rule patchEffects_shape)
    with ih fr continued(6) replayedRects_step [OF continued(2) continued(1), of fs]
    show ?thesis by (auto simp: list_ex_iff)
  qed
qed

section \<open>The marker\<close>

lemma scan_nonneg: "findStartFrame_scan fs l frame = Inr s \<Longrightarrow> 0 \<le> s"
proof (induction fs l frame rule: findStartFrame_scan.induct)
  case (1 fs l frame)
  show ?case
  proof (cases "0 \<le> frame")
    case False
    with 1(2) show ?thesis by (simp add: findStartFrame_scan.simps [of fs l frame])
  next
    case True
    show ?thesis
    proof (cases "findStartFrame_scan fs l frame = findStartFrame_scan fs l (frame - 1)")
      case False
      with 1(2) True show ?thesis
        by (auto simp: findStartFrame_scan.simps [of fs l frame] split: if_splits)
    next
      case eq: True
      from 1(2) True have a: "frame \<noteq> l + 1 \<or> s = frame"
        and b: "\<not> int (length fs) \<le> frame \<or> s = frame"
        and c: "\<not> isKeyframe (fs ! nat frame) \<or> s = frame"
        by (auto simp: findStartFrame_scan.simps [of fs l frame] split: if_splits)
      show ?thesis
      proof (cases "s = frame")
        case True
        with \<open>0 \<le> frame\<close> show ?thesis by simp
      next
        case False
        with a b c have "frame \<noteq> l + 1" "\<not> int (length fs) \<le> frame" "\<not> isKeyframe (fs ! nat frame)"
          by blast+
        from 1(1) [OF True this] 1(2) eq show ?thesis by simp
      qed
    qed
  qed
qed

lemma onMakeBuffer_replay_cases:
  assumes "lastDecodeFrame rd \<noteq> t" "pixelBuffer rd = Some bm"
    and "onMakeBuffer mk rd t = Inr (res, rd', tr)"
  obtains
    (failed) start bm1 ds where "findStartFrame rd t = Inr start" "0 \<le> start"
      "decodeFrames mk (frames rd) start t bm = Inr (False, bm1, ds)"
      "res = None" "rd' = rd\<lparr>lastDecodeFrame := - 1, pixelBuffer := Some bm1\<rparr>"
      "tr = SetLastDecodeFrame (- 1) # ds"
  | (painted) start bm1 ds where "findStartFrame rd t = Inr start" "0 \<le> start"
      "decodeFrames mk (frames rd) start t bm = Inr (True, bm1, ds)"
      "res = Some bm1" "rd' = rd\<lparr>lastDecodeFrame := t, pixelBuffer := Some bm1\<rparr>"
      "tr = SetLastDecodeFrame (- 1) # ds @ [SetLastDecodeFrame t]"
proof -
  from assms obtain start where s: "findStartFrame rd t = Inr start"
    by (auto simp: onMakeBuffer_def split: sum.splits)
  then have nn: "0 \<le> start" by (auto simp: findStartFrame_def dest: scan_nonneg)
  from assms s obtain ok bm1 ds where d: "decodeFrames mk (frames rd) start t bm = Inr (ok, bm1, ds)"
    by (auto simp: onMakeBuffer_def split: sum.splits)
  show ?thesis
  proof (cases ok)
    case True
    with assms s d have "res = Some bm1" "rd' = rd\<lparr>lastDecodeFrame := t, pixelBuffer := Some bm1\<rparr>"
      "tr = SetLastDecodeFrame (- 1) # ds @ [SetLastDecodeFrame t]"
      by (auto simp: onMakeBuffer_def)
    with s nn d True show ?thesis by (auto intro: painted)
  next
    case False
    with assms s d have "res = None" "rd' = rd\<lparr>lastDecodeFrame := - 1, pixelBuffer := Some bm1\<rparr>"
      "tr = SetLastDecodeFrame (- 1) # ds"
      by (auto simp: onMakeBuffer_def)
    with s nn d False show ?thesis by (auto intro: failed)
  qed
qed

lemma decodeRects_failed_last:
  "decodeRects mk key rs fr bm = Inr (False, bm', tr) \<Longrightarrow>
   \<exists>pre off. tr = pre @ [ReadPixels off False]"
proof (induction rs arbitrary: fr bm tr)
  case Nil
  then show ?case by simp
next
  case (Cons r rs)
  from Cons.prems show ?case
  proof (cases rule: decodeRects_Cons_cases)
    case (null tr0)
    from Cons.IH [OF null(2)] obtain pre off where "tr0 = pre @ [ReadPixels off False]" by blast
    with null(3) have "tr = (MakeCodec (fileBytes r) # pre) @ [ReadPixels off False]" by simp
    then show ?thesis by blast
  next
    case (failed c)
    from failed(5) have "tr = (MakeCodec (fileBytes r) # (if clears fr key c bm then [EraseAll] else []))
        @ [ReadPixels (offsetOf bm r) False]" by simp
    then show ?thesis by blast
  next
    case (painted c bm2 tr0)
    from Cons.IH [OF painted(3)] obtain pre off where "tr0 = pre @ [ReadPixels off False]" by blast
    with painted(4) have "tr = (MakeCodec (fileBytes r) # (if clears fr key c bm then [EraseAll] else [])
        @ ReadPixels (offsetOf bm r) True # pre) @ [ReadPixels off False]" by simp
    then show ?thesis by blast
  qed
qed

lemma decodeFrames_failed_last:
  "decodeFrames mk fs frame target bm = Inr (False, bm', tr) \<Longrightarrow>
   \<exists>pre off. tr = pre @ [ReadPixels off False]"
proof (induction mk fs frame target bm arbitrary: tr rule: decodeFrames.induct)
  case (1 mk fs frame target bm)
  from 1(2) show ?case
  proof (cases rule: decodeFrames_cases)
    case finished
    then show ?thesis by simp
  next
    case failed
    from decodeRects_failed_last [OF failed(5)] show ?thesis .
  next
    case (continued bm1 tr1 tr0)
    have range: "\<not> (frame < 0 \<or> int (length fs) \<le> frame)" using continued(2,3) by simp
    have nn: "\<not> \<not> True" by simp
    from 1(1) [OF continued(1) range continued(4) refl refl nn continued(5)]
    obtain pre off where "tr0 = pre @ [ReadPixels off False]" by blast
    with continued(6) have "tr = (tr1 @ pre) @ [ReadPixels off False]" by simp
    then show ?thesis by blast
  qed
qed

text \<open>
  C2. In every call that replays (the target is not the marker and the pixel buffer is
  there), the first effect sets the marker to \<open>-1\<close> and no patch effect sets it. If a
  \<^verbatim>\<open>readPixels\<close> fails, the call returns no buffer; then the failed read is the last
  effect and the marker is \<open>-1\<close> afterwards. If the call returns a buffer, the marker is
  set to the target as the last effect, after every patch of every frame from the start
  frame to the target has been given to the codec library and, where there is a codec, read
  successfully.
\<close>

theorem onMakeBuffer_marker:
  assumes "lastDecodeFrame reader \<noteq> targetFrame" and "pixelBuffer reader = Some bitmap"
    and "onMakeBuffer makeFrom reader targetFrame = Inr (result, reader', tr)"
  shows "\<exists>startFrame ds.
           findStartFrame reader targetFrame = Inr startFrame \<and> \<not> list_ex marksFrame ds \<and>
           (list_ex readFailed ds \<longrightarrow> result = None) \<and>
           (result = None \<longrightarrow>
              (\<exists>pre off. ds = pre @ [ReadPixels off False]) \<and>
              tr = SetLastDecodeFrame (- 1) # ds \<and> lastDecodeFrame reader' = - 1) \<and>
           (result \<noteq> None \<longrightarrow>
              tr = SetLastDecodeFrame (- 1) # ds @ [SetLastDecodeFrame targetFrame] \<and>
              lastDecodeFrame reader' = targetFrame \<and>
              filter (\<lambda>e. e \<noteq> EraseAll) ds =
                concat (map (patchEffects makeFrom bitmap)
                          (replayedRects (frames reader) startFrame targetFrame)))"
  using assms
proof (cases rule: onMakeBuffer_replay_cases)
  case (failed start bm1 ds)
  from decodeFrames_effects [OF failed(2,3)] decodeFrames_failed_last [OF failed(3)]
    failed(1,4,5,6) show ?thesis by auto
next
  case (painted start bm1 ds)
  from decodeFrames_effects [OF painted(2,3)] painted(1,4,5,6) show ?thesis by auto
qed

theorem onMakeBuffer_marker_witness:
  "lastDecodeFrame (demoReader 1 [1,1,1,1,1,1,1,1]) \<noteq> 3 \<and>
   pixelBuffer (demoReader 1 [1,1,1,1,1,1,1,1]) = Some (demoCanvas [1,1,1,1,1,1,1,1]) \<and>
   onMakeBuffer demoCodecs (demoReader 1 [1,1,1,1,1,1,1,1]) 3 =
     Inr (None, demoReader (- 1) [2,2,2,2,2,2,2,2],
          [SetLastDecodeFrame (- 1), MakeCodec [], MakeCodec [2], ReadPixels 0 True,
           MakeCodec [0], ReadPixels 4 False]) \<and>
   (\<exists>startFrame ds.
      findStartFrame (demoReader 1 [1,1,1,1,1,1,1,1]) 3 = Inr startFrame \<and>
      (\<exists>pre off. ds = pre @ [ReadPixels off False]) \<and>
      [SetLastDecodeFrame (- 1), MakeCodec [], MakeCodec [2], ReadPixels 0 True,
       MakeCodec [0], ReadPixels 4 False] = SetLastDecodeFrame (- 1) # ds \<and>
      lastDecodeFrame (demoReader (- 1) [2,2,2,2,2,2,2,2]) = - 1)"
proof -
  have h1: "lastDecodeFrame (demoReader 1 [1,1,1,1,1,1,1,1]) \<noteq> 3"
    by (simp add: demoReader_def)
  have h2: "pixelBuffer (demoReader 1 [1,1,1,1,1,1,1,1]) = Some (demoCanvas [1,1,1,1,1,1,1,1])"
    by (simp add: demoReader_def)
  have h3: "onMakeBuffer demoCodecs (demoReader 1 [1,1,1,1,1,1,1,1]) 3 =
     Inr (None, demoReader (- 1) [2,2,2,2,2,2,2,2],
          [SetLastDecodeFrame (- 1), MakeCodec [], MakeCodec [2], ReadPixels 0 True,
           MakeCodec [0], ReadPixels 4 False])"
    by code_simp
  from onMakeBuffer_marker [OF h1 h2 h3] h1 h2 h3 show ?thesis by blast
qed

text \<open>
  C5, amended. When a call for frame \<open>F\<close> returns a buffer, the next call for \<open>F\<close>
  returns the same buffer with the same bytes, leaves the reader as it is and has no effect
  at all: no codec is made and no pixels are read.
\<close>

theorem onMakeBuffer_twice:
  assumes "onMakeBuffer makeFrom reader targetFrame = Inr (Some buffer, reader', tr)"
  shows "onMakeBuffer makeFrom reader' targetFrame = Inr (Some buffer, reader', [])"
proof (cases "lastDecodeFrame reader = targetFrame")
  case True
  with assms have "reader' = reader" "pixelBuffer reader = Some buffer"
    by (auto simp: onMakeBuffer_def)
  with True show ?thesis by (simp add: onMakeBuffer_def)
next
  case False
  from assms obtain bm where bm: "pixelBuffer reader = Some bm"
    using False by (auto simp: onMakeBuffer_def split: option.splits)
  from False bm assms have "lastDecodeFrame reader' = targetFrame \<and> pixelBuffer reader' = Some buffer"
    by (cases rule: onMakeBuffer_replay_cases) simp_all
  then show ?thesis by (simp add: onMakeBuffer_def)
qed

theorem onMakeBuffer_twice_witness:
  "onMakeBuffer demoCodecs (demoReader (- 1) [0,0,0,0,0,0,0,0]) 1 =
     Inr (Some (demoCanvas [1,1,1,1,1,1,1,1]), demoReader 1 [1,1,1,1,1,1,1,1],
          [SetLastDecodeFrame (- 1), MakeCodec [1], ReadPixels 0 True, MakeCodec [1],
           ReadPixels 4 True, SetLastDecodeFrame 1]) \<and>
   onMakeBuffer demoCodecs (demoReader 1 [1,1,1,1,1,1,1,1]) 1 =
     Inr (Some (demoCanvas [1,1,1,1,1,1,1,1]), demoReader 1 [1,1,1,1,1,1,1,1], [])"
proof -
  have h: "onMakeBuffer demoCodecs (demoReader (- 1) [0,0,0,0,0,0,0,0]) 1 =
     Inr (Some (demoCanvas [1,1,1,1,1,1,1,1]), demoReader 1 [1,1,1,1,1,1,1,1],
          [SetLastDecodeFrame (- 1), MakeCodec [1], ReadPixels 0 True, MakeCodec [1],
           ReadPixels 4 True, SetLastDecodeFrame 1])"
    by code_simp
  from onMakeBuffer_twice [OF h] h show ?thesis by blast
qed

text \<open>
  C5 as stated fails when the first call fails: frame 3 of the example cannot be read, the
  marker stays \<open>-1\<close>, and the second call for frame 3 replays from the keyframe 2, making
  three codecs and reading pixels twice.
\<close>

theorem onMakeBuffer_twice_counterexample:
  "onMakeBuffer demoCodecs (demoReader 2 [2,2,2,2,2,2,2,2]) 3 =
     Inr (None, demoReader (- 1) [2,2,2,2,2,2,2,2],
          [SetLastDecodeFrame (- 1), MakeCodec [0], ReadPixels 4 False]) \<and>
   onMakeBuffer demoCodecs (demoReader (- 1) [2,2,2,2,2,2,2,2]) 3 =
     Inr (None, demoReader (- 1) [2,2,2,2,2,2,2,2],
          [SetLastDecodeFrame (- 1), MakeCodec [], MakeCodec [2], ReadPixels 0 True,
           MakeCodec [0], ReadPixels 4 False])"
  by code_simp

text \<open>
  C7 as stated fails for a negative target: the call for frame \<open>-5\<close> returns the canvas
  as it is and records \<open>-5\<close> as the marker.
\<close>

theorem onMakeBuffer_invalid_counterexample:
  "onMakeBuffer demoCodecs (demoReader 1 [1,1,1,1,1,1,1,1]) (- 5) =
     Inr (Some (demoCanvas [1,1,1,1,1,1,1,1]), demoReader (- 5) [1,1,1,1,1,1,1,1],
          [SetLastDecodeFrame (- 1), SetLastDecodeFrame (- 5)])"
  by code_simp

lemma scan_negative: "frame < 0 \<Longrightarrow> findStartFrame_scan fs l frame = Inr 0"
  by (simp add: findStartFrame_scan.simps [of fs l frame])

lemma scan_beyond:
  "int (length fs) \<le> frame \<Longrightarrow> frame \<noteq> l + 1 \<Longrightarrow> findStartFrame_scan fs l frame = Inl FrameOutOfRange"
  by (simp add: findStartFrame_scan.simps [of fs l frame])

text \<open>
  C7, amended. A call on a reader without pixel buffer returns no buffer and changes
  nothing. There is no range check on the target: for a negative target other than the
  marker the call returns the canvas as it is, decodes nothing and sets the marker to the
  target; for a target at or beyond the number of frames, other than the marker, the frame
  vector is read out of range, which is a fault and not a returned failure: in the scan
  before any effect, or, for a target that is the marker plus one, in the replay loop after
  the marker has been reset.
\<close>

theorem onMakeBuffer_invalid:
  "(pixelBuffer reader = None \<longrightarrow>
      onMakeBuffer makeFrom reader targetFrame = Inr (None, reader, [])) \<and>
   (pixelBuffer reader = Some bitmap \<and> targetFrame < 0 \<and> lastDecodeFrame reader \<noteq> targetFrame \<longrightarrow>
      onMakeBuffer makeFrom reader targetFrame =
        Inr (Some bitmap, reader\<lparr>lastDecodeFrame := targetFrame, pixelBuffer := Some bitmap\<rparr>,
             [SetLastDecodeFrame (- 1), SetLastDecodeFrame targetFrame])) \<and>
   (pixelBuffer reader = Some bitmap \<and> int (length (frames reader)) \<le> targetFrame \<and>
    lastDecodeFrame reader \<noteq> targetFrame \<longrightarrow>
      onMakeBuffer makeFrom reader targetFrame =
        Inl (FrameOutOfRange,
             if targetFrame = lastDecodeFrame reader + 1 then [SetLastDecodeFrame (- 1)] else []))"
proof (intro conjI impI)
  assume "pixelBuffer reader = None"
  then show "onMakeBuffer makeFrom reader targetFrame = Inr (None, reader, [])"
    by (simp add: onMakeBuffer_def)
next
  assume a: "pixelBuffer reader = Some bitmap \<and> targetFrame < 0 \<and> lastDecodeFrame reader \<noteq> targetFrame"
  then have "findStartFrame reader targetFrame = Inr 0"
    by (simp add: findStartFrame_def scan_negative)
  moreover from a have "decodeFrames makeFrom (frames reader) 0 targetFrame bitmap = Inr (True, bitmap, [])"
    by (simp add: decodeFrames.simps [of _ _ 0])
  ultimately show "onMakeBuffer makeFrom reader targetFrame =
        Inr (Some bitmap, reader\<lparr>lastDecodeFrame := targetFrame, pixelBuffer := Some bitmap\<rparr>,
             [SetLastDecodeFrame (- 1), SetLastDecodeFrame targetFrame])"
    using a by (simp add: onMakeBuffer_def)
next
  assume a: "pixelBuffer reader = Some bitmap \<and> int (length (frames reader)) \<le> targetFrame \<and>
    lastDecodeFrame reader \<noteq> targetFrame"
  show "onMakeBuffer makeFrom reader targetFrame =
        Inl (FrameOutOfRange,
             if targetFrame = lastDecodeFrame reader + 1 then [SetLastDecodeFrame (- 1)] else [])"
  proof (cases "targetFrame = lastDecodeFrame reader + 1")
    case False
    with a have "findStartFrame reader targetFrame = Inl FrameOutOfRange"
      by (simp add: findStartFrame_def scan_beyond)
    with a False show ?thesis by (simp add: onMakeBuffer_def)
  next
    case True
    from a have "0 \<le> targetFrame" by (simp add: order_trans [of 0 "int (length (frames reader))"])
    with True have "findStartFrame reader targetFrame = Inr targetFrame"
      by (simp add: findStartFrame_def scan_next)
    moreover from a have "decodeFrames makeFrom (frames reader) targetFrame targetFrame bitmap =
        Inl (FrameOutOfRange, [])"
      by (simp add: decodeFrames.simps [of _ _ targetFrame])
    ultimately show ?thesis using a True by (simp add: onMakeBuffer_def)
  qed
qed

theorem onMakeBuffer_invalid_witness:
  "pixelBuffer \<lparr>frames = demoSequence, pixelBuffer = None, lastDecodeFrame = - 1\<rparr> = None \<and>
   onMakeBuffer demoCodecs \<lparr>frames = demoSequence, pixelBuffer = None, lastDecodeFrame = - 1\<rparr> 2 =
     Inr (None, \<lparr>frames = demoSequence, pixelBuffer = None, lastDecodeFrame = - 1\<rparr>, []) \<and>
   pixelBuffer (demoReader 1 [1,1,1,1,1,1,1,1]) = Some (demoCanvas [1,1,1,1,1,1,1,1]) \<and>
   (- 5 :: int) < 0 \<and> lastDecodeFrame (demoReader 1 [1,1,1,1,1,1,1,1]) \<noteq> - 5 \<and>
   onMakeBuffer demoCodecs (demoReader 1 [1,1,1,1,1,1,1,1]) (- 5) =
     Inr (Some (demoCanvas [1,1,1,1,1,1,1,1]),
          (demoReader 1 [1,1,1,1,1,1,1,1])\<lparr>lastDecodeFrame := - 5,
             pixelBuffer := Some (demoCanvas [1,1,1,1,1,1,1,1])\<rparr>,
          [SetLastDecodeFrame (- 1), SetLastDecodeFrame (- 5)]) \<and>
   int (length (frames (demoReader 1 [1,1,1,1,1,1,1,1]))) \<le> 4 \<and>
   lastDecodeFrame (demoReader 1 [1,1,1,1,1,1,1,1]) \<noteq> 4 \<and>
   onMakeBuffer demoCodecs (demoReader 1 [1,1,1,1,1,1,1,1]) 4 = Inl (FrameOutOfRange, []) \<and>
   lastDecodeFrame (demoReader 3 [1,1,1,1,1,1,1,1]) \<noteq> 4 \<and>
   onMakeBuffer demoCodecs (demoReader 3 [1,1,1,1,1,1,1,1]) 4 =
     Inl (FrameOutOfRange, [SetLastDecodeFrame (- 1)])"
proof -
  let ?empty = "\<lparr>frames = demoSequence, pixelBuffer = None, lastDecodeFrame = - 1\<rparr>"
  let ?rd = "demoReader 1 [1,1,1,1,1,1,1,1]"
  let ?bm = "demoCanvas [1,1,1,1,1,1,1,1]"
  have a: "pixelBuffer ?empty = None" by simp
  have b: "pixelBuffer ?rd = Some ?bm" by (simp add: demoReader_def)
  have c: "(- 5 :: int) < 0" by simp
  have d: "lastDecodeFrame ?rd \<noteq> - 5" by (simp add: demoReader_def)
  have e: "int (length (frames ?rd)) \<le> 4" by (simp add: demoReader_def demoSequence_def)
  have f: "lastDecodeFrame ?rd \<noteq> 4" by (simp add: demoReader_def)
  from onMakeBuffer_invalid [where reader = "?empty" and makeFrom = demoCodecs and targetFrame = 2] a
  have r1: "onMakeBuffer demoCodecs ?empty 2 = Inr (None, ?empty, [])" by blast
  from onMakeBuffer_invalid [where reader = "?rd" and makeFrom = demoCodecs and targetFrame = "- 5" and bitmap = "?bm"] b c d
  have r2: "onMakeBuffer demoCodecs ?rd (- 5) =
     Inr (Some ?bm, ?rd\<lparr>lastDecodeFrame := - 5, pixelBuffer := Some ?bm\<rparr>,
          [SetLastDecodeFrame (- 1), SetLastDecodeFrame (- 5)])" by blast
  from onMakeBuffer_invalid [where reader = "?rd" and makeFrom = demoCodecs and targetFrame = 4 and bitmap = "?bm"] b e f
  have r3: "onMakeBuffer demoCodecs ?rd 4 =
     Inl (FrameOutOfRange, if (4::int) = lastDecodeFrame ?rd + 1 then [SetLastDecodeFrame (- 1)] else [])"
    by blast
  have g: "(4::int) \<noteq> lastDecodeFrame ?rd + 1" by (simp add: demoReader_def)
  from r3 g have r3: "onMakeBuffer demoCodecs ?rd 4 = Inl (FrameOutOfRange, [])" by simp
  let ?nx = "demoReader 3 [1,1,1,1,1,1,1,1]"
  have b': "pixelBuffer ?nx = Some ?bm" by (simp add: demoReader_def)
  have e': "int (length (frames ?nx)) \<le> 4" by (simp add: demoReader_def demoSequence_def)
  have f': "lastDecodeFrame ?nx \<noteq> 4" by (simp add: demoReader_def)
  from onMakeBuffer_invalid [where reader = "?nx" and makeFrom = demoCodecs and targetFrame = 4 and bitmap = "?bm"] b' e' f'
  have r4: "onMakeBuffer demoCodecs ?nx 4 =
     Inl (FrameOutOfRange, if (4::int) = lastDecodeFrame ?nx + 1 then [SetLastDecodeFrame (- 1)] else [])"
    by blast
  have g': "(4::int) = lastDecodeFrame ?nx + 1" by (simp add: demoReader_def)
  from r4 g' have r4: "onMakeBuffer demoCodecs ?nx 4 = Inl (FrameOutOfRange, [SetLastDecodeFrame (- 1)])"
    by simp
  from a b c d e f r1 r2 r3 f' r4 show ?thesis by blast
qed

section \<open>Clearing the canvas\<close>

text \<open>
  The effects of the inner loop on a frame, and whether it runs to the end of the frame,
  depend on the canvas only through its shape. So the effects of a whole call are those of
  the frames it reaches, each taken on the canvas the call starts from.
\<close>

lemma effectsOf_simps [simp]:
  "effectsOf (Inl (f, tr)) = tr"
  "effectsOf (Inr (a, b, tr)) = tr"
  by (simp_all add: effectsOf_def)

lemma effectsOf_withEffects: "effectsOf (withEffects es r) = es @ effectsOf r"
  by (cases r) (auto simp: withEffects_def effectsOf_def)

lemma readPixels_kind:
  assumes "sameShape a b"
  shows "(\<exists>f. readPixels c a off = Inl f \<and> readPixels c b off = Inl f) \<or>
         (readPixels c a off = Inr (False, a) \<and> readPixels c b off = Inr (False, b)) \<or>
         (\<exists>a2 b2. readPixels c a off = Inr (True, a2) \<and> readPixels c b off = Inr (True, b2) \<and>
            sameShape a2 b2)"
proof -
  from assms have eq: "rowBytes a = rowBytes b" "length (pixels a) = length (pixels b)"
    by (simp_all add: sameShape_def rowBytes_def)
  show ?thesis
  proof (cases "decodes c")
    case False
    then show ?thesis by (simp add: readPixels_def)
  next
    case True
    show ?thesis
    proof (cases "fits off (rowBytes a) (4 * codecWidth c) (codecHeight c) (length (pixels a))")
      case False
      with True eq show ?thesis by (simp add: readPixels_def)
    next
      case fit: True
      let ?a2 = "a\<lparr>pixels := copyRows (decoded c) (4 * codecWidth c) (rowBytes a) (nat off)
               (codecHeight c) (pixels a)\<rparr>"
      let ?b2 = "b\<lparr>pixels := copyRows (decoded c) (4 * codecWidth c) (rowBytes b) (nat off)
               (codecHeight c) (pixels b)\<rparr>"
      from True fit have ra: "readPixels c a off = Inr (True, ?a2)" by (simp add: readPixels_def)
      from True fit eq have rb: "readPixels c b off = Inr (True, ?b2)" by (simp add: readPixels_def)
      from readPixels_shape [OF ra] readPixels_shape [OF rb] assms
      have "sameShape ?a2 ?b2" by (simp add: sameShape_def)
      with ra rb show ?thesis by blast
    qed
  qed
qed

lemma effects_shape:
  "sameShape a b \<Longrightarrow>
   effectsOf (decodeRects mk key rs fr a) = effectsOf (decodeRects mk key rs fr b)"
proof (induction rs arbitrary: fr a b)
  case Nil
  then show ?case by simp
next
  case (Cons r rs)
  show ?case
  proof (cases "mk (fileBytes r)")
    case None
    with Cons.IH [OF Cons.prems] show ?thesis
      by (simp add: decodeRects_null effectsOf_withEffects)
  next
    case (Some c)
    let ?a1 = "if clears fr key c a then eraseAll a else a"
    let ?b1 = "if clears fr key c b then eraseAll b else b"
    from Cons.prems have cl: "clears fr key c a = clears fr key c b"
      by (simp add: clears_def sameShape_def)
    from Cons.prems have off: "offsetOf a r = offsetOf b r" by (rule offsetOf_shape)
    from Cons.prems cl have s1: "sameShape ?a1 ?b1"
      by (simp add: sameShape_def eraseAll_def)
    from readPixels_kind [OF s1, of c "offsetOf a r"]
    show ?thesis
    proof (elim disjE exE conjE)
      fix f assume "readPixels c ?a1 (offsetOf a r) = Inl f" "readPixels c ?b1 (offsetOf a r) = Inl f"
      with Some cl off show ?thesis by (simp add: decodeRects_codec)
    next
      assume "readPixels c ?a1 (offsetOf a r) = Inr (False, ?a1)"
        "readPixels c ?b1 (offsetOf a r) = Inr (False, ?b1)"
      with Some cl off show ?thesis by (simp add: decodeRects_codec)
    next
      fix a2 b2 assume "readPixels c ?a1 (offsetOf a r) = Inr (True, a2)"
        "readPixels c ?b1 (offsetOf a r) = Inr (True, b2)" and s2: "sameShape a2 b2"
      with Some cl off Cons.IH [OF s2, of False] show ?thesis
        by (simp add: decodeRects_codec effectsOf_withEffects)
    qed
  qed
qed

lemma frameEffects_shape: "sameShape a b \<Longrightarrow> frameEffects mk a = frameEffects mk b"
  by (intro ext) (simp add: frameEffects_def effects_shape)

lemma erase_effects:
  "EraseAll \<in> set (effectsOf (decodeRects mk key rs fr bm)) \<longleftrightarrow>
     fr \<and> key \<and> (\<exists>c. firstCodec mk rs = Some c \<and> \<not> sameSize c bm)"
proof (induction rs arbitrary: fr bm)
  case Nil
  then show ?case by simp
next
  case (Cons r rs)
  show ?case
  proof (cases "mk (fileBytes r)")
    case None
    with Cons.IH [of fr bm] show ?thesis
      by (simp add: decodeRects_null effectsOf_withEffects)
  next
    case (Some c)
    let ?bm1 = "if clears fr key c bm then eraseAll bm else bm"
    have cl: "clears fr key c bm \<longleftrightarrow> fr \<and> key \<and> \<not> sameSize c bm"
      by (simp add: clears_def sameSize_def)
    show ?thesis
    proof (cases "readPixels c ?bm1 (offsetOf bm r)")
      case (Inl f)
      with Some cl show ?thesis by (simp add: decodeRects_codec)
    next
      case (Inr p)
      obtain res bm2 where p: "p = (res, bm2)" by (cases p)
      from Cons.IH [of False bm2] have "EraseAll \<notin> set (effectsOf (decodeRects mk key rs False bm2))"
        by simp
      with Some cl Inr p show ?thesis
        by (cases res) (simp_all add: decodeRects_codec effectsOf_withEffects)
    qed
  qed
qed

lemma frameEffects_erase:
  "EraseAll \<in> set (frameEffects mk bm f) \<longleftrightarrow>
     isKeyframe f \<and> (\<exists>c. firstCodec mk (bitmaps f) = Some c \<and>
        (codecWidth c \<noteq> width bm \<or> codecHeight c \<noteq> height bm))"
  by (auto simp: frameEffects_def erase_effects sameSize_def)

lemma replayedFrames_done: "target < frame \<Longrightarrow> 0 \<le> frame \<Longrightarrow> replayedFrames fs frame target = []"
  by (simp add: replayedFrames_def)

lemma replayedFrames_beyond: "int (length fs) \<le> frame \<Longrightarrow> replayedFrames fs frame target = []"
  by (simp add: replayedFrames_def)

lemma replayedFrames_step:
  assumes "0 \<le> frame" "frame \<le> target" "frame < int (length fs)"
  shows "replayedFrames fs frame target = fs ! nat frame # replayedFrames fs (frame + 1) target"
proof -
  from assms have lt: "nat frame < length (take (nat (target + 1)) fs)" by simp
  from assms have nth: "take (nat (target + 1)) fs ! nat frame = fs ! nat frame" by simp
  from assms have suc: "nat (frame + 1) = Suc (nat frame)" by simp
  from Cons_nth_drop_Suc [OF lt] nth suc show ?thesis
    by (simp add: replayedFrames_def)
qed

lemma completes_shape_aux:
  "sameShape a b \<Longrightarrow>
   (case decodeRects mk key rs fr a of Inl e \<Rightarrow> False | Inr (ok, bm', tr) \<Rightarrow> ok) =
   (case decodeRects mk key rs fr b of Inl e \<Rightarrow> False | Inr (ok, bm', tr) \<Rightarrow> ok)"
proof (induction rs arbitrary: fr a b)
  case Nil
  then show ?case by simp
next
  case (Cons r rs)
  have we: "(case withEffects es x of Inl e \<Rightarrow> False | Inr (ok, bm', tr) \<Rightarrow> ok) =
            (case x of Inl e \<Rightarrow> False | Inr (ok, bm', tr) \<Rightarrow> ok)" for es x
    by (cases x) auto
  show ?case
  proof (cases "mk (fileBytes r)")
    case None
    with Cons.IH [OF Cons.prems] show ?thesis
      by (simp add: decodeRects_null we)
  next
    case (Some c)
    let ?a1 = "if clears fr key c a then eraseAll a else a"
    let ?b1 = "if clears fr key c b then eraseAll b else b"
    from Cons.prems have cl: "clears fr key c a = clears fr key c b"
      by (simp add: clears_def sameShape_def)
    from Cons.prems have off: "offsetOf a r = offsetOf b r" by (rule offsetOf_shape)
    from Cons.prems cl have s1: "sameShape ?a1 ?b1"
      by (simp add: sameShape_def eraseAll_def)
    from readPixels_kind [OF s1, of c "offsetOf a r"]
    show ?thesis
    proof (elim disjE exE conjE)
      fix f assume "readPixels c ?a1 (offsetOf a r) = Inl f" "readPixels c ?b1 (offsetOf a r) = Inl f"
      with Some cl off show ?thesis by (simp add: decodeRects_codec)
    next
      assume "readPixels c ?a1 (offsetOf a r) = Inr (False, ?a1)"
        "readPixels c ?b1 (offsetOf a r) = Inr (False, ?b1)"
      with Some cl off show ?thesis by (simp add: decodeRects_codec)
    next
      fix a2 b2 assume "readPixels c ?a1 (offsetOf a r) = Inr (True, a2)"
        "readPixels c ?b1 (offsetOf a r) = Inr (True, b2)" and s2: "sameShape a2 b2"
      with Some cl off Cons.IH [OF s2, of False] show ?thesis
        by (simp add: decodeRects_codec we)
    qed
  qed
qed

lemma frameCompletes_shape: "sameShape a b \<Longrightarrow> frameCompletes mk a = frameCompletes mk b"
  by (intro ext) (simp add: frameCompletes_def completes_shape_aux)

lemma reachedFrames_shape: "sameShape a b \<Longrightarrow> reachedFrames mk a fs = reachedFrames mk b fs"
  by (induction fs) (simp_all add: frameCompletes_shape [of a b])

lemma decodeFrames_reached:
  "0 \<le> frame \<Longrightarrow>
   effectsOf (decodeFrames mk fs frame target bm) =
     concat (map (frameEffects mk bm) (reachedFrames mk bm (replayedFrames fs frame target)))"
proof (induction mk fs frame target bm rule: decodeFrames.induct)
  case (1 mk fs frame target bm)
  let ?f = "fs ! nat frame"
  show ?case
  proof (cases "frame \<le> target")
    case False
    with 1(2) have "replayedFrames fs frame target = []" by (simp add: replayedFrames_done)
    moreover from False have "decodeFrames mk fs frame target bm = Inr (True, bm, [])"
      by (simp add: decodeFrames.simps [of mk fs frame])
    ultimately show ?thesis by simp
  next
    case le: True
    show ?thesis
    proof (cases "int (length fs) \<le> frame")
      case True
      then have "replayedFrames fs frame target = []" by (rule replayedFrames_beyond)
      moreover from True le have "decodeFrames mk fs frame target bm = Inl (FrameOutOfRange, [])"
        by (simp add: decodeFrames.simps [of mk fs frame])
      ultimately show ?thesis by simp
    next
      case False
      with 1(2) have range: "\<not> (frame < 0 \<or> int (length fs) \<le> frame)" by simp
      from False have lt: "frame < int (length fs)" by simp
      note step = replayedFrames_step [OF 1(2) le lt]
      show ?thesis
      proof (cases "decodeRects mk (isKeyframe ?f) (bitmaps ?f) True bm")
        case (Inl e)
        obtain f tr where e: "e = (f, tr)" by (cases e)
        with Inl le range have d: "decodeFrames mk fs frame target bm = Inl (f, tr)"
          by (simp add: decodeFrames.simps [of mk fs frame])
        from Inl e have "frameEffects mk bm ?f = tr" "\<not> frameCompletes mk bm ?f"
          by (simp_all add: frameEffects_def frameCompletes_def)
        with d step show ?thesis by simp
      next
        case (Inr p)
        obtain ok bm1 tr1 where p: "p = (ok, bm1, tr1)" by (cases p)
        from Inr p have fe: "frameEffects mk bm ?f = tr1" and fc: "frameCompletes mk bm ?f = ok"
          by (simp_all add: frameEffects_def frameCompletes_def)
        show ?thesis
        proof (cases ok)
          case False
          with Inr p le range have d: "decodeFrames mk fs frame target bm = Inr (False, bm1, tr1)"
            by (simp add: decodeFrames.simps [of mk fs frame])
          with fe fc False step show ?thesis by simp
        next
          case True
          with Inr p have dr: "decodeRects mk (isKeyframe ?f) (bitmaps ?f) True bm = Inr (True, bm1, tr1)"
            by simp
          from dr le range have d: "decodeFrames mk fs frame target bm =
              withEffects tr1 (decodeFrames mk fs (frame + 1) target bm1)"
            by (simp add: decodeFrames.simps [of mk fs frame])
          have nn: "\<not> \<not> True" by simp
          from 1(2) have "0 \<le> frame + 1" by simp
          from 1(1) [OF le range dr refl refl nn this]
          have eff: "effectsOf (decodeFrames mk fs (frame + 1) target bm1) =
               concat (map (frameEffects mk bm1) (reachedFrames mk bm1 (replayedFrames fs (frame + 1) target)))" .
          note sh = decodeRects_shape [OF dr]
          from d eff fe fc True step frameEffects_shape [OF sh, of mk] reachedFrames_shape [OF sh, of mk]
          show ?thesis by (simp add: effectsOf_withEffects)
        qed
      qed
    qed
  qed
qed

lemma decodeFrames_all_reached:
  "decodeFrames mk fs frame target bm = Inr (True, bm', tr) \<Longrightarrow> 0 \<le> frame \<Longrightarrow>
   reachedFrames mk bm (replayedFrames fs frame target) = replayedFrames fs frame target"
proof (induction mk fs frame target bm arbitrary: tr rule: decodeFrames.induct)
  case (1 mk fs frame target bm)
  from 1(2) show ?case
  proof (cases rule: decodeFrames_cases)
    case finished
    with 1(3) show ?thesis by (simp add: replayedFrames_done)
  next
    case failed
    then show ?thesis by simp
  next
    case (continued bm1 tr1 tr0)
    have range: "\<not> (frame < 0 \<or> int (length fs) \<le> frame)" using continued(2,3) by simp
    have nn: "\<not> \<not> True" by simp
    from continued(2) have nn1: "0 \<le> frame + 1" by simp
    from 1(1) [OF continued(1) range continued(4) refl refl nn continued(5) nn1]
    have ih: "reachedFrames mk bm1 (replayedFrames fs (frame + 1) target) =
              replayedFrames fs (frame + 1) target" .
    note sh = decodeRects_shape [OF continued(4)]
    from continued(4) have "frameCompletes mk bm (fs ! nat frame)" by (simp add: frameCompletes_def)
    with ih reachedFrames_shape [OF sh, of mk] replayedFrames_step [OF continued(2) continued(1) continued(3)]
    show ?thesis by simp
  qed
qed


lemma onMakeBuffer_effects:
  assumes "lastDecodeFrame rd \<noteq> t" "pixelBuffer rd = Some bm" "findStartFrame rd t = Inr start"
  shows "effectsOf (onMakeBuffer mk rd t) =
           SetLastDecodeFrame (- 1) # effectsOf (decodeFrames mk (frames rd) start t bm)
           @ (if returnsBuffer (onMakeBuffer mk rd t) then [SetLastDecodeFrame t] else [])"
    and "returnsBuffer (onMakeBuffer mk rd t) \<longleftrightarrow>
           (\<exists>bm' tr. decodeFrames mk (frames rd) start t bm = Inr (True, bm', tr))"
proof -
  show "effectsOf (onMakeBuffer mk rd t) =
           SetLastDecodeFrame (- 1) # effectsOf (decodeFrames mk (frames rd) start t bm)
           @ (if returnsBuffer (onMakeBuffer mk rd t) then [SetLastDecodeFrame t] else [])"
  proof (cases "decodeFrames mk (frames rd) start t bm")
    case (Inl e)
    obtain f tr where "e = (f, tr)" by (cases e)
    with Inl assms show ?thesis by (simp add: onMakeBuffer_def returnsBuffer_def)
  next
    case (Inr p)
    obtain ok bm1 tr where "p = (ok, bm1, tr)" by (cases p)
    with Inr assms show ?thesis by (cases ok) (simp_all add: onMakeBuffer_def returnsBuffer_def)
  qed
  show "returnsBuffer (onMakeBuffer mk rd t) \<longleftrightarrow>
           (\<exists>bm' tr. decodeFrames mk (frames rd) start t bm = Inr (True, bm', tr))"
  proof (cases "decodeFrames mk (frames rd) start t bm")
    case (Inl e)
    obtain f tr where "e = (f, tr)" by (cases e)
    with Inl assms show ?thesis by (simp add: onMakeBuffer_def returnsBuffer_def)
  next
    case (Inr p)
    obtain ok bm1 tr where "p = (ok, bm1, tr)" by (cases p)
    with Inr assms show ?thesis by (cases ok) (simp_all add: onMakeBuffer_def returnsBuffer_def)
  qed
qed


text \<open>
  C9. In a call of \<^verbatim>\<open>onMakeBuffer\<close> that replays, whether it ends with a buffer, with a
  failed \<^verbatim>\<open>readPixels\<close> or with a fault, the effects after the reset of the marker are
  those of the frames reached, one frame after the other, and every frame from the start
  frame to the target is reached when a buffer is returned. In the effects of a frame the
  canvas is erased if and only if the frame is a keyframe and the first of its patches for
  which the library returns a codec has a decoded width or height different from the
  canvas, smaller or larger. A patch without codec is passed over by \<open>firstCodec\<close>: it
  does not count as first patch.
\<close>

theorem keyframe_erase_iff:
  assumes "lastDecodeFrame reader \<noteq> targetFrame"
    and "pixelBuffer reader = Some bitmap"
    and "findStartFrame reader targetFrame = Inr startFrame"
  shows "effectsOf (onMakeBuffer makeFrom reader targetFrame) =
           SetLastDecodeFrame (- 1) #
           concat (map (frameEffects makeFrom bitmap)
                     (reachedFrames makeFrom bitmap
                        (replayedFrames (frames reader) startFrame targetFrame))) @
           (if returnsBuffer (onMakeBuffer makeFrom reader targetFrame)
            then [SetLastDecodeFrame targetFrame] else []) \<and>
         (returnsBuffer (onMakeBuffer makeFrom reader targetFrame) \<longrightarrow>
            reachedFrames makeFrom bitmap (replayedFrames (frames reader) startFrame targetFrame) =
              replayedFrames (frames reader) startFrame targetFrame) \<and>
         (\<forall>bitmapFrame.
            EraseAll \<in> set (frameEffects makeFrom bitmap bitmapFrame) \<longleftrightarrow>
              isKeyframe bitmapFrame \<and>
              (\<exists>codec. firstCodec makeFrom (bitmaps bitmapFrame) = Some codec \<and>
                 (codecWidth codec \<noteq> width bitmap \<or> codecHeight codec \<noteq> height bitmap)))"
proof -
  from assms(3) have nn: "0 \<le> startFrame" by (auto simp: findStartFrame_def dest: scan_nonneg)
  note eff = decodeFrames_reached [OF nn, of makeFrom "frames reader" targetFrame bitmap]
  note call = onMakeBuffer_effects [OF assms, of makeFrom]
  from call(1) eff have a: "effectsOf (onMakeBuffer makeFrom reader targetFrame) =
           SetLastDecodeFrame (- 1) #
           concat (map (frameEffects makeFrom bitmap)
                     (reachedFrames makeFrom bitmap
                        (replayedFrames (frames reader) startFrame targetFrame))) @
           (if returnsBuffer (onMakeBuffer makeFrom reader targetFrame)
            then [SetLastDecodeFrame targetFrame] else [])" by simp
  have b: "returnsBuffer (onMakeBuffer makeFrom reader targetFrame) \<longrightarrow>
            reachedFrames makeFrom bitmap (replayedFrames (frames reader) startFrame targetFrame) =
              replayedFrames (frames reader) startFrame targetFrame"
  proof
    assume "returnsBuffer (onMakeBuffer makeFrom reader targetFrame)"
    with call(2) obtain bm' tr where
      "decodeFrames makeFrom (frames reader) startFrame targetFrame bitmap = Inr (True, bm', tr)"
      by blast
    from decodeFrames_all_reached [OF this nn]
    show "reachedFrames makeFrom bitmap (replayedFrames (frames reader) startFrame targetFrame) =
              replayedFrames (frames reader) startFrame targetFrame" .
  qed
  show ?thesis
  proof (intro conjI allI)
    show "effectsOf (onMakeBuffer makeFrom reader targetFrame) =
           SetLastDecodeFrame (- 1) #
           concat (map (frameEffects makeFrom bitmap)
                     (reachedFrames makeFrom bitmap
                        (replayedFrames (frames reader) startFrame targetFrame))) @
           (if returnsBuffer (onMakeBuffer makeFrom reader targetFrame)
            then [SetLastDecodeFrame targetFrame] else [])" by (rule a)
    show "returnsBuffer (onMakeBuffer makeFrom reader targetFrame) \<longrightarrow>
            reachedFrames makeFrom bitmap (replayedFrames (frames reader) startFrame targetFrame) =
              replayedFrames (frames reader) startFrame targetFrame" by (rule b)
    fix bitmapFrame
    show "EraseAll \<in> set (frameEffects makeFrom bitmap bitmapFrame) \<longleftrightarrow>
              isKeyframe bitmapFrame \<and>
              (\<exists>codec. firstCodec makeFrom (bitmaps bitmapFrame) = Some codec \<and>
                 (codecWidth codec \<noteq> width bitmap \<or> codecHeight codec \<noteq> height bitmap))"
      by (rule frameEffects_erase)
  qed
qed

theorem keyframe_erase_iff_witness:
  "lastDecodeFrame \<lparr>frames = demoShrink, pixelBuffer = Some (demoCanvas [9,9,9,9,9,9,9,9]),
                    lastDecodeFrame = 5\<rparr> \<noteq> 1 \<and>
   pixelBuffer \<lparr>frames = demoShrink, pixelBuffer = Some (demoCanvas [9,9,9,9,9,9,9,9]),
                lastDecodeFrame = 5\<rparr> = Some (demoCanvas [9,9,9,9,9,9,9,9]) \<and>
   findStartFrame \<lparr>frames = demoShrink, pixelBuffer = Some (demoCanvas [9,9,9,9,9,9,9,9]),
                   lastDecodeFrame = 5\<rparr> 1 = Inr 0 \<and>
   onMakeBuffer demoCodecs
       \<lparr>frames = demoShrink, pixelBuffer = Some (demoCanvas [9,9,9,9,9,9,9,9]),
        lastDecodeFrame = 5\<rparr> 1 =
     Inr (Some (demoCanvas [0,0,0,0,1,1,1,1]),
          \<lparr>frames = demoShrink, pixelBuffer = Some (demoCanvas [0,0,0,0,1,1,1,1]),
           lastDecodeFrame = 1\<rparr>,
          [SetLastDecodeFrame (- 1), MakeCodec [], MakeCodec [1], EraseAll, ReadPixels 4 True,
           MakeCodec [1], ReadPixels 4 True, SetLastDecodeFrame 1]) \<and>
   effectsOf (onMakeBuffer demoCodecs
       \<lparr>frames = demoShrink, pixelBuffer = Some (demoCanvas [9,9,9,9,9,9,9,9]),
        lastDecodeFrame = 5\<rparr> 1) =
     SetLastDecodeFrame (- 1) #
     concat (map (frameEffects demoCodecs (demoCanvas [9,9,9,9,9,9,9,9]))
               (replayedFrames demoShrink 0 1)) @ [SetLastDecodeFrame 1] \<and>
   EraseAll \<in> set (frameEffects demoCodecs (demoCanvas [9,9,9,9,9,9,9,9]) demoKeyframe) \<and>
   EraseAll \<notin> set (frameEffects demoCodecs (demoCanvas [9,9,9,9,9,9,9,9]) (demoShrink ! 1)) \<and>
   lastDecodeFrame \<lparr>frames = demoAnchored, pixelBuffer = Some (demoPixel [9,9,9,9]),
                    lastDecodeFrame = - 1\<rparr> \<noteq> 0 \<and>
   pixelBuffer \<lparr>frames = demoAnchored, pixelBuffer = Some (demoPixel [9,9,9,9]),
                lastDecodeFrame = - 1\<rparr> = Some (demoPixel [9,9,9,9]) \<and>
   findStartFrame \<lparr>frames = demoAnchored, pixelBuffer = Some (demoPixel [9,9,9,9]),
                   lastDecodeFrame = - 1\<rparr> 0 = Inr 0 \<and>
   onMakeBuffer demoCodecs \<lparr>frames = demoAnchored, pixelBuffer = Some (demoPixel [9,9,9,9]),
                            lastDecodeFrame = - 1\<rparr> 0 =
     Inl (WriteOutOfBounds, [SetLastDecodeFrame (- 1), MakeCodec [2], EraseAll]) \<and>
   effectsOf (onMakeBuffer demoCodecs
       \<lparr>frames = demoAnchored, pixelBuffer = Some (demoPixel [9,9,9,9]),
        lastDecodeFrame = - 1\<rparr> 0) =
     SetLastDecodeFrame (- 1) # frameEffects demoCodecs (demoPixel [9,9,9,9]) (demoAnchored ! 0) \<and>
   firstCodec demoCodecs (bitmaps (demoAnchored ! 0)) = Some demoFullCodec \<and>
   width (demoPixel [9,9,9,9]) < codecWidth demoFullCodec \<and>
   EraseAll \<in> set (frameEffects demoCodecs (demoPixel [9,9,9,9]) (demoAnchored ! 0))"
proof -
  let ?cv = "demoCanvas [9,9,9,9,9,9,9,9]"
  let ?rd = "\<lparr>frames = demoShrink, pixelBuffer = Some ?cv, lastDecodeFrame = 5\<rparr>"
  let ?px = "demoPixel [9,9,9,9]"
  let ?wide = "\<lparr>frames = demoAnchored, pixelBuffer = Some ?px, lastDecodeFrame = - 1\<rparr>"
  have a1: "lastDecodeFrame ?rd \<noteq> 1" by simp
  have a2: "pixelBuffer ?rd = Some ?cv" by simp
  have a3: "findStartFrame ?rd 1 = Inr 0" by code_simp
  have run: "onMakeBuffer demoCodecs ?rd 1 =
     Inr (Some (demoCanvas [0,0,0,0,1,1,1,1]),
          \<lparr>frames = demoShrink, pixelBuffer = Some (demoCanvas [0,0,0,0,1,1,1,1]), lastDecodeFrame = 1\<rparr>,
          [SetLastDecodeFrame (- 1), MakeCodec [], MakeCodec [1], EraseAll, ReadPixels 4 True,
           MakeCodec [1], ReadPixels 4 True, SetLastDecodeFrame 1])"
    by code_simp
  from run have ret: "returnsBuffer (onMakeBuffer demoCodecs ?rd 1)"
    by (simp add: returnsBuffer_def)
  note inst = keyframe_erase_iff [where reader = "?rd" and targetFrame = 1 and bitmap = "?cv"
      and startFrame = 0 and makeFrom = demoCodecs, OF a1 a2 a3]
  from inst have "effectsOf (onMakeBuffer demoCodecs ?rd 1) =
       SetLastDecodeFrame (- 1) #
       concat (map (frameEffects demoCodecs ?cv)
                 (reachedFrames demoCodecs ?cv (replayedFrames (frames ?rd) 0 1))) @
       (if returnsBuffer (onMakeBuffer demoCodecs ?rd 1) then [SetLastDecodeFrame 1] else [])"
    and "returnsBuffer (onMakeBuffer demoCodecs ?rd 1) \<longrightarrow>
       reachedFrames demoCodecs ?cv (replayedFrames (frames ?rd) 0 1) =
         replayedFrames (frames ?rd) 0 1"
    by blast+
  with ret have dec: "effectsOf (onMakeBuffer demoCodecs ?rd 1) =
     SetLastDecodeFrame (- 1) #
     concat (map (frameEffects demoCodecs ?cv) (replayedFrames demoShrink 0 1)) @
     [SetLastDecodeFrame 1]"
    by simp
  from inst have iff: "EraseAll \<in> set (frameEffects demoCodecs ?cv f) \<longleftrightarrow>
      isKeyframe f \<and> (\<exists>codec. firstCodec demoCodecs (bitmaps f) = Some codec \<and>
         (codecWidth codec \<noteq> width ?cv \<or> codecHeight codec \<noteq> height ?cv))" for f
    by blast
  have "isKeyframe demoKeyframe" by (simp add: demoKeyframe_def)
  moreover have "firstCodec demoCodecs (bitmaps demoKeyframe) = Some demoSmallCodec"
    by (simp add: demoKeyframe_def demoCodecs_def demoSmallCodec_def)
  moreover have "codecWidth demoSmallCodec \<noteq> width ?cv"
    by (simp add: demoSmallCodec_def demoCanvas_def)
  ultimately have e1: "EraseAll \<in> set (frameEffects demoCodecs ?cv demoKeyframe)"
    using iff [of demoKeyframe] by blast
  have "\<not> isKeyframe (demoShrink ! 1)" by (simp add: demoShrink_def)
  with iff [of "demoShrink ! 1"]
  have e2: "EraseAll \<notin> set (frameEffects demoCodecs ?cv (demoShrink ! 1))" by blast
  have b1: "lastDecodeFrame ?wide \<noteq> 0" by simp
  have b2: "pixelBuffer ?wide = Some ?px" by simp
  have b3: "findStartFrame ?wide 0 = Inr 0" by code_simp
  have fault: "onMakeBuffer demoCodecs ?wide 0 =
     Inl (WriteOutOfBounds, [SetLastDecodeFrame (- 1), MakeCodec [2], EraseAll])"
    by code_simp
  from fault have nret: "\<not> returnsBuffer (onMakeBuffer demoCodecs ?wide 0)"
    by (simp add: returnsBuffer_def)
  have reached: "reachedFrames demoCodecs ?px (replayedFrames demoAnchored 0 0) = [demoAnchored ! 0]"
    by code_simp
  note wide = keyframe_erase_iff [where reader = "?wide" and targetFrame = 0 and bitmap = "?px"
      and startFrame = 0 and makeFrom = demoCodecs, OF b1 b2 b3]
  from wide have "effectsOf (onMakeBuffer demoCodecs ?wide 0) =
       SetLastDecodeFrame (- 1) #
       concat (map (frameEffects demoCodecs ?px)
                 (reachedFrames demoCodecs ?px (replayedFrames (frames ?wide) 0 0))) @
       (if returnsBuffer (onMakeBuffer demoCodecs ?wide 0) then [SetLastDecodeFrame 0] else [])"
    by blast
  with nret reached have dec2: "effectsOf (onMakeBuffer demoCodecs ?wide 0) =
     SetLastDecodeFrame (- 1) # frameEffects demoCodecs ?px (demoAnchored ! 0)"
    by simp
  have key: "isKeyframe (demoAnchored ! 0)" by (simp add: demoAnchored_def)
  have fc: "firstCodec demoCodecs (bitmaps (demoAnchored ! 0)) = Some demoFullCodec"
    by (simp add: demoAnchored_def demoCodecs_def demoFullCodec_def)
  have wd: "width ?px < codecWidth demoFullCodec" by (simp add: demoFullCodec_def demoPixel_def)
  then have "codecWidth demoFullCodec \<noteq> width ?px" by simp
  with wide key fc have e3: "EraseAll \<in> set (frameEffects demoCodecs ?px (demoAnchored ! 0))"
    by blast
  from a1 a2 a3 run dec e1 e2 b1 b2 b3 fault dec2 fc wd e3 show ?thesis by blast
qed


lemma erase_first:
  "decodeRects mk key rs True bm = Inr (ok, bm', tr) \<Longrightarrow> key \<Longrightarrow>
   firstCodec mk rs = Some c \<Longrightarrow> \<not> sameSize c bm \<Longrightarrow>
   \<exists>pre post. tr = pre @ EraseAll # post \<and> \<not> list_ex isReadPixels pre"
proof (induction rs arbitrary: tr)
  case Nil
  then show ?case by simp
next
  case (Cons r rs)
  from Cons.prems(1) show ?case
  proof (cases rule: decodeRects_Cons_cases)
    case (null tr0)
    with Cons.prems have "firstCodec mk rs = Some c" by simp
    from Cons.IH [OF null(2) Cons.prems(2) this Cons.prems(4)] obtain pre post where
      "tr0 = pre @ EraseAll # post" "\<not> list_ex isReadPixels pre" by blast
    with null(3) have "tr = (MakeCodec (fileBytes r) # pre) @ EraseAll # post
        \<and> \<not> list_ex isReadPixels (MakeCodec (fileBytes r) # pre)" by simp
    then show ?thesis by blast
  next
    case (failed c')
    with Cons.prems have "clears True key c' bm" by (simp add: clears_def sameSize_def)
    with failed(5) have "tr = [MakeCodec (fileBytes r)] @ EraseAll # [ReadPixels (offsetOf bm r) False]
        \<and> \<not> list_ex isReadPixels [MakeCodec (fileBytes r)]" by simp
    then show ?thesis by blast
  next
    case (painted c' bm2 tr0)
    with Cons.prems have "clears True key c' bm" by (simp add: clears_def sameSize_def)
    with painted(4) have "tr = [MakeCodec (fileBytes r)] @ EraseAll # (ReadPixels (offsetOf bm r) True # tr0)
        \<and> \<not> list_ex isReadPixels [MakeCodec (fileBytes r)]" by simp
    then show ?thesis by blast
  qed
qed

lemma paints_shape: "sameShape a b \<Longrightarrow> paints mk a = paints mk b"
  by (intro ext) (simp add: paints_def offsetOf_shape [of a b] sameShape_def rowBytes_def split: option.splits)

lemma readPixels_outside:
  assumes rp: "readPixels c bm off = Inr (True, bm2)"
    and i: "i < length (pixels bm)"
    and out: "\<not> (0 \<le> off \<and> inRows (nat off) (rowBytes bm) (4 * codecWidth c) (codecHeight c) i)"
  shows "pixels bm2 ! i = pixels bm ! i"
proof -
  from rp have fit: "fits off (rowBytes bm) (4 * codecWidth c) (codecHeight c) (length (pixels bm))"
    and eq: "pixels bm2 = copyRows (decoded c) (4 * codecWidth c) (rowBytes bm) (nat off)
               (codecHeight c) (pixels bm)"
    by (simp_all add: readPixels_Inr_True)
  show ?thesis
  proof (cases "codecWidth c = 0 \<or> codecHeight c = 0")
    case True
    with eq show ?thesis by auto
  next
    case False
    with fit have nn: "0 \<le> off"
      and b: "nat off + (codecHeight c - 1) * rowBytes bm + 4 * codecWidth c \<le> length (pixels bm)"
      by (simp_all add: fits_def)
    from nn out have "\<not> inRows (nat off) (rowBytes bm) (4 * codecWidth c) (codecHeight c) i" by simp
    with nth_copyRows_outside [OF disjI2 [OF b] i] eq show ?thesis by simp
  qed
qed

lemma zeroOutside_eraseAll [simp]: "zeroOutside C (eraseAll bm)"
  by (simp add: zeroOutside_def eraseAll_def)

lemma zeroOutside_general:
  "decodeRects mk key rs fr bm = Inr (ok, bm', tr) \<Longrightarrow>
   (\<forall>r\<in>set rs. \<forall>i. paints mk bm r i \<longrightarrow> C i) \<Longrightarrow>
   (fr \<and> key \<and> (\<exists>c. firstCodec mk rs = Some c \<and> \<not> sameSize c bm)) \<or> zeroOutside C bm \<Longrightarrow>
   zeroOutside C bm'"
proof (induction rs arbitrary: fr bm tr)
  case Nil
  then show ?case by auto
next
  case (Cons r rs)
  from Cons.prems(1) show ?case
  proof (cases rule: decodeRects_Cons_cases)
    case (null tr0)
    from Cons.prems(3) null(1)
    have "(fr \<and> key \<and> (\<exists>c. firstCodec mk rs = Some c \<and> \<not> sameSize c bm)) \<or> zeroOutside C bm" by simp
    moreover from Cons.prems(2) have "\<forall>r\<in>set rs. \<forall>i. paints mk bm r i \<longrightarrow> C i" by simp
    ultimately show ?thesis using Cons.IH [OF null(2)] by blast
  next
    case (failed c)
    with Cons.prems(3) show ?thesis by (auto simp: clears_def sameSize_def)
  next
    case (painted c bm2 tr0)
    let ?bm1 = "if clears fr key c bm then eraseAll bm else bm"
    from Cons.prems(3) painted(1) have z1: "zeroOutside C ?bm1"
      by (auto simp: clears_def sameSize_def)
    have s1: "sameShape ?bm1 bm" by simp
    from readPixels_shape [OF painted(2)] s1 have s2: "sameShape bm2 bm"
      by (blast intro: sameShape_trans)
    have z2: "zeroOutside C bm2"
      unfolding zeroOutside_def
    proof (intro allI impI)
      fix i assume i: "i < length (pixels bm2)" and nc: "\<not> C i"
      from i s2 s1 have i1: "i < length (pixels ?bm1)" by (simp add: sameShape_def)
      from nc Cons.prems(2) have "\<not> paints mk bm r i" by auto
      with painted(1) have "\<not> (0 \<le> offsetOf bm r \<and>
          inRows (nat (offsetOf bm r)) (rowBytes ?bm1) (4 * codecWidth c) (codecHeight c) i)"
        by (simp add: paints_def)
      from readPixels_outside [OF painted(2) i1 this] z1 i1 nc
      show "pixels bm2 ! i = 0" by (simp add: zeroOutside_def)
    qed
    from paints_shape [OF s2] Cons.prems(2)
    have "\<forall>r\<in>set rs. \<forall>i. paints mk bm2 r i \<longrightarrow> C i" by simp
    from Cons.IH [OF painted(3) this] z2 show ?thesis by blast
  qed
qed

lemma zeroOutside_frames:
  "decodeFrames mk fs frame target bm = Inr (ok, bm', tr) \<Longrightarrow> 0 \<le> frame \<Longrightarrow>
   (\<forall>r\<in>set (replayedRects fs frame target). \<forall>i. paints mk bm r i \<longrightarrow> C i) \<Longrightarrow>
   zeroOutside C bm \<Longrightarrow> zeroOutside C bm'"
proof (induction mk fs frame target bm arbitrary: tr rule: decodeFrames.induct)
  case (1 mk fs frame target bm)
  from 1(2) show ?case
  proof (cases rule: decodeFrames_cases)
    case finished
    with 1(5) show ?thesis by simp
  next
    case failed
    from replayedRects_step [OF failed(2) failed(1), of fs] 1(4)
    have "\<forall>r\<in>set (bitmaps (fs ! nat frame)). \<forall>i. paints mk bm r i \<longrightarrow> C i" by auto
    from zeroOutside_general [OF failed(5) this] 1(5) show ?thesis by blast
  next
    case (continued bm1 tr1 tr0)
    have range: "\<not> (frame < 0 \<or> int (length fs) \<le> frame)" using continued(2,3) by simp
    have nn: "\<not> \<not> True" by simp
    from continued(2) have nn1: "0 \<le> frame + 1" by simp
    note step = replayedRects_step [OF continued(2) continued(1), of fs]
    from step 1(4)
    have here: "\<forall>r\<in>set (bitmaps (fs ! nat frame)). \<forall>i. paints mk bm r i \<longrightarrow> C i" by auto
    from zeroOutside_general [OF continued(4) here] 1(5) have z1: "zeroOutside C bm1" by blast
    from paints_shape [OF decodeRects_shape [OF continued(4)]] step 1(4)
    have rest: "\<forall>r\<in>set (replayedRects fs (frame + 1) target). \<forall>i. paints mk bm1 r i \<longrightarrow> C i"
      by auto
    from 1(1) [OF continued(1) range continued(4) refl refl nn continued(5) nn1 rest z1]
    show ?thesis .
  qed
qed

lemma scan_keyframe:
  assumes "findStartFrame_scan fs l target = Inr s" "target < int (length fs)"
    and "0 \<le> k" "k \<le> target" "isKeyframe (fs ! nat k)"
  shows "k \<le> s"
proof -
  let ?P = "\<lambda>i. i = l + 1 \<or> isKeyframe (fs ! nat i)"
  from scan_result [OF assms(2), of l] obtain s' where
    s': "findStartFrame_scan fs l target = Inr s'"
    and imp: "(\<exists>i. 0 \<le> i \<and> i \<le> target \<and> ?P i) \<longrightarrow>
         0 \<le> s' \<and> s' \<le> target \<and> ?P s' \<and> (\<forall>j. s' < j \<and> j \<le> target \<longrightarrow> \<not> ?P j)"
    by blast
  from s' assms(1) have eq: "s' = s" by simp
  from assms(3-5) have "\<exists>i. 0 \<le> i \<and> i \<le> target \<and> ?P i" by blast
  with imp have "\<forall>j. s' < j \<and> j \<le> target \<longrightarrow> \<not> ?P j" by blast
  then have "s' < k \<and> k \<le> target \<longrightarrow> \<not> ?P k" by (rule spec)
  with assms(4,5) have "\<not> s' < k" by blast
  with eq show ?thesis by simp
qed


lemma scan_keyframe_start:
  assumes "findStartFrame_scan fs l target = Inr s"
    and "s \<le> k" "k \<le> target" "isKeyframe (fs ! nat k)"
  shows "k = s"
proof (cases "target < int (length fs)")
  case True
  from assms(1) have "0 \<le> s" by (rule scan_nonneg)
  with assms(2) have "0 \<le> k" by simp
  from scan_keyframe [OF assms(1) True this assms(3,4)] assms(2) show ?thesis by simp
next
  case False
  then have beyond: "int (length fs) \<le> target" by simp
  have "target = l + 1"
  proof (rule ccontr)
    assume "target \<noteq> l + 1"
    from scan_beyond [OF beyond this] assms(1) show False by simp
  qed
  moreover from beyond have "0 \<le> target" by (simp add: order_trans [of 0 "int (length fs)"])
  ultimately have "findStartFrame_scan fs l target = Inr target" by (simp add: scan_next)
  with assms(1) have "s = target" by simp
  with assms(2,3) show ?thesis by simp
qed


text \<open>
  C3. When a call of \<^verbatim>\<open>onMakeBuffer\<close> replays and returns, with or without a buffer, and a
  frame of the replayed range is a keyframe whose first patch with a codec is narrower or
  lower than the canvas, then that keyframe is the frame the replay starts from, the canvas
  is erased before any pixels are read in this call, and afterwards every byte of the pixel
  buffer, which is the buffer returned if there is one, outside the regions that the
  patches of the frames from the keyframe to the target write is zero; for a target that is
  the keyframe itself these are the patches of the keyframe.
\<close>

theorem keyframe_clear_on_shrink:
  assumes "lastDecodeFrame reader \<noteq> targetFrame"
    and "pixelBuffer reader = Some bitmap"
    and "findStartFrame reader targetFrame = Inr startFrame"
    and "onMakeBuffer makeFrom reader targetFrame = Inr (result, reader', tr)"
    and "startFrame \<le> keyFrame" and "keyFrame \<le> targetFrame"
    and "isKeyframe (frames reader ! nat keyFrame)"
    and "firstCodec makeFrom (bitmaps (frames reader ! nat keyFrame)) = Some codec"
    and "codecWidth codec < width bitmap \<or> codecHeight codec < height bitmap"
  shows "keyFrame = startFrame \<and>
         (\<exists>pre post. tr = SetLastDecodeFrame (- 1) # pre @ EraseAll # post \<and>
            \<not> list_ex isReadPixels pre) \<and>
         (\<exists>buffer. pixelBuffer reader' = Some buffer \<and>
            (result = None \<or> result = Some buffer) \<and>
            (\<forall>i<length (pixels buffer).
               (\<forall>r\<in>set (replayedRects (frames reader) keyFrame targetFrame).
                  \<not> paints makeFrom bitmap r i) \<longrightarrow>
               pixels buffer ! i = 0))"
proof -
  let ?fs = "frames reader"
  from assms(1,2,4) have "0 \<le> startFrame \<and> (\<exists>ok buffer ds.
      decodeFrames makeFrom ?fs startFrame targetFrame bitmap = Inr (ok, buffer, ds) \<and>
      pixelBuffer reader' = Some buffer \<and> (result = None \<or> result = Some buffer) \<and>
      (\<exists>closing. tr = SetLastDecodeFrame (- 1) # ds @ closing))"
  proof (cases rule: onMakeBuffer_replay_cases)
    case (failed start bm1 ds)
    from failed(1) assms(3) have "start = startFrame" by simp
    with failed have "0 \<le> startFrame"
      "decodeFrames makeFrom ?fs startFrame targetFrame bitmap = Inr (False, bm1, ds)"
      "pixelBuffer reader' = Some bm1" "result = None \<or> result = Some bm1"
      "tr = SetLastDecodeFrame (- 1) # ds @ []" by simp_all
    then show ?thesis by blast
  next
    case (painted start bm1 ds)
    from painted(1) assms(3) have "start = startFrame" by simp
    with painted have "0 \<le> startFrame"
      "decodeFrames makeFrom ?fs startFrame targetFrame bitmap = Inr (True, bm1, ds)"
      "pixelBuffer reader' = Some bm1" "result = None \<or> result = Some bm1"
      "tr = SetLastDecodeFrame (- 1) # ds @ [SetLastDecodeFrame targetFrame]" by simp_all
    then show ?thesis by blast
  qed
  then obtain ok buffer ds closing where nn: "0 \<le> startFrame"
    and run: "decodeFrames makeFrom ?fs startFrame targetFrame bitmap = Inr (ok, buffer, ds)"
    and pb: "pixelBuffer reader' = Some buffer"
    and res: "result = None \<or> result = Some buffer"
    and tr: "tr = SetLastDecodeFrame (- 1) # ds @ closing"
    by blast
  from assms(5,6) have le: "startFrame \<le> targetFrame" by simp
  from assms(3) have "findStartFrame_scan ?fs (lastDecodeFrame reader) targetFrame = Inr startFrame"
    by (simp add: findStartFrame_def)
  from scan_keyframe_start [OF this assms(5,6,7)] have k: "keyFrame = startFrame" .
  from assms(9) have ns: "\<not> sameSize codec bitmap" by (auto simp: sameSize_def)
  from assms(7) k have key: "isKeyframe (?fs ! nat startFrame)" by simp
  from assms(8) k have fc: "firstCodec makeFrom (bitmaps (?fs ! nat startFrame)) = Some codec" by simp
  let ?C = "\<lambda>i. \<exists>r\<in>set (replayedRects ?fs startFrame targetFrame). paints makeFrom bitmap r i"
  note step = replayedRects_step [OF nn le, of ?fs]
  have here: "\<forall>r\<in>set (bitmaps (?fs ! nat startFrame)). \<forall>i. paints makeFrom bitmap r i \<longrightarrow> ?C i"
    unfolding step by auto
  from key fc ns have first: "(True \<and> isKeyframe (?fs ! nat startFrame) \<and>
      (\<exists>c. firstCodec makeFrom (bitmaps (?fs ! nat startFrame)) = Some c \<and> \<not> sameSize c bitmap))
      \<or> zeroOutside ?C bitmap" by blast
  from run have "(\<exists>pre post. ds = pre @ EraseAll # post \<and> \<not> list_ex isReadPixels pre) \<and>
      zeroOutside ?C buffer"
  proof (cases rule: decodeFrames_cases)
    case finished
    with le show ?thesis by simp
  next
    case failed
    from erase_first [OF failed(5) key fc ns] zeroOutside_general [OF failed(5) here first]
    show ?thesis by blast
  next
    case (continued bm1 tr1 tr0)
    from erase_first [OF continued(4) key fc ns] obtain pre post where
      "tr1 = pre @ EraseAll # post" and np: "\<not> list_ex isReadPixels pre" by blast
    with continued(6) have "ds = pre @ EraseAll # (post @ tr0)" by simp
    with np have a: "\<exists>pre post. ds = pre @ EraseAll # post \<and> \<not> list_ex isReadPixels pre"
      by blast
    from zeroOutside_general [OF continued(4) here first] have z1: "zeroOutside ?C bm1" .
    have later: "\<forall>r\<in>set (replayedRects ?fs (startFrame + 1) targetFrame).
        \<forall>i. paints makeFrom bm1 r i \<longrightarrow> ?C i"
      unfolding step paints_shape [OF decodeRects_shape [OF continued(4)]] by auto
    from nn have "0 \<le> startFrame + 1" by simp
    from zeroOutside_frames [OF continued(5) this later z1] have "zeroOutside ?C buffer" .
    with a show ?thesis by blast
  qed
  then obtain pre post where ds: "ds = pre @ EraseAll # post"
    and np: "\<not> list_ex isReadPixels pre" and z: "zeroOutside ?C buffer" by blast
  from tr ds have "tr = SetLastDecodeFrame (- 1) # pre @ EraseAll # (post @ closing)" by simp
  with np have a: "\<exists>pre post. tr = SetLastDecodeFrame (- 1) # pre @ EraseAll # post \<and>
            \<not> list_ex isReadPixels pre" by blast
  from z k have b: "\<forall>i<length (pixels buffer).
            (\<forall>r\<in>set (replayedRects ?fs keyFrame targetFrame). \<not> paints makeFrom bitmap r i) \<longrightarrow>
            pixels buffer ! i = 0"
    by (simp add: zeroOutside_def)
  from pb res b have c: "\<exists>buffer. pixelBuffer reader' = Some buffer \<and>
            (result = None \<or> result = Some buffer) \<and>
            (\<forall>i<length (pixels buffer).
               (\<forall>r\<in>set (replayedRects ?fs keyFrame targetFrame).
                  \<not> paints makeFrom bitmap r i) \<longrightarrow>
               pixels buffer ! i = 0)"
    by (intro exI [of _ buffer] conjI)
  show ?thesis
  proof (intro conjI)
    show "keyFrame = startFrame" by (rule k)
    show "\<exists>pre post. tr = SetLastDecodeFrame (- 1) # pre @ EraseAll # post \<and>
            \<not> list_ex isReadPixels pre" by (rule a)
    show "\<exists>buffer. pixelBuffer reader' = Some buffer \<and>
            (result = None \<or> result = Some buffer) \<and>
            (\<forall>i<length (pixels buffer).
               (\<forall>r\<in>set (replayedRects ?fs keyFrame targetFrame).
                  \<not> paints makeFrom bitmap r i) \<longrightarrow>
               pixels buffer ! i = 0)" by (rule c)
  qed
qed

theorem keyframe_clear_on_shrink_witness:
  "lastDecodeFrame \<lparr>frames = demoShrink, pixelBuffer = Some (demoCanvas [9,9,9,9,9,9,9,9]),
                    lastDecodeFrame = 5\<rparr> \<noteq> 1 \<and>
   pixelBuffer \<lparr>frames = demoShrink, pixelBuffer = Some (demoCanvas [9,9,9,9,9,9,9,9]),
                lastDecodeFrame = 5\<rparr> = Some (demoCanvas [9,9,9,9,9,9,9,9]) \<and>
   findStartFrame \<lparr>frames = demoShrink, pixelBuffer = Some (demoCanvas [9,9,9,9,9,9,9,9]),
                   lastDecodeFrame = 5\<rparr> 1 = Inr 0 \<and>
   onMakeBuffer demoCodecs \<lparr>frames = demoShrink, pixelBuffer = Some (demoCanvas [9,9,9,9,9,9,9,9]),
                            lastDecodeFrame = 5\<rparr> 1 =
     Inr (Some (demoCanvas [0,0,0,0,1,1,1,1]),
          \<lparr>frames = demoShrink, pixelBuffer = Some (demoCanvas [0,0,0,0,1,1,1,1]),
           lastDecodeFrame = 1\<rparr>,
          [SetLastDecodeFrame (- 1), MakeCodec [], MakeCodec [1], EraseAll, ReadPixels 4 True,
           MakeCodec [1], ReadPixels 4 True, SetLastDecodeFrame 1]) \<and>
   isKeyframe (demoShrink ! nat 0) \<and>
   firstCodec demoCodecs (bitmaps (demoShrink ! nat 0)) = Some demoSmallCodec \<and>
   codecWidth demoSmallCodec < width (demoCanvas [9,9,9,9,9,9,9,9]) \<and>
   replayedRects demoShrink 0 1 =
     [\<lparr>rectX = 0, rectY = 0, fileBytes = []\<rparr>, \<lparr>rectX = 1, rectY = 0, fileBytes = [1]\<rparr>,
      \<lparr>rectX = 1, rectY = 0, fileBytes = [1]\<rparr>] \<and>
   \<not> paints demoCodecs (demoCanvas [9,9,9,9,9,9,9,9]) \<lparr>rectX = 0, rectY = 0, fileBytes = []\<rparr> 2 \<and>
   \<not> paints demoCodecs (demoCanvas [9,9,9,9,9,9,9,9]) \<lparr>rectX = 1, rectY = 0, fileBytes = [1]\<rparr> 2 \<and>
   pixels (demoCanvas [0,0,0,0,1,1,1,1]) ! 2 = 0"
proof -
  let ?cv = "demoCanvas [9,9,9,9,9,9,9,9]"
  let ?rd = "\<lparr>frames = demoShrink, pixelBuffer = Some ?cv, lastDecodeFrame = 5\<rparr>"
  let ?out = "demoCanvas [0,0,0,0,1,1,1,1]"
  let ?rd' = "\<lparr>frames = demoShrink, pixelBuffer = Some ?out, lastDecodeFrame = 1\<rparr>"
  let ?tr = "[SetLastDecodeFrame (- 1), MakeCodec [], MakeCodec [1], EraseAll, ReadPixels 4 True,
           MakeCodec [1], ReadPixels 4 True, SetLastDecodeFrame 1]"
  let ?null = "\<lparr>rectX = 0, rectY = 0, fileBytes = []\<rparr>"
  let ?small = "\<lparr>rectX = 1, rectY = 0, fileBytes = [1]\<rparr>"
  have h1: "lastDecodeFrame ?rd \<noteq> 1" by simp
  have h2: "pixelBuffer ?rd = Some ?cv" by simp
  have h3: "findStartFrame ?rd 1 = Inr 0" by code_simp
  have h4: "onMakeBuffer demoCodecs ?rd 1 = Inr (Some ?out, ?rd', ?tr)" by code_simp
  have h5: "(0::int) \<le> 0" by simp
  have h6: "(0::int) \<le> 1" by simp
  have k: "isKeyframe (demoShrink ! nat 0)" by (simp add: demoShrink_def demoKeyframe_def)
  then have h7: "isKeyframe (frames ?rd ! nat 0)" by simp
  have fc: "firstCodec demoCodecs (bitmaps (demoShrink ! nat 0)) = Some demoSmallCodec"
    by (simp add: demoShrink_def demoKeyframe_def demoCodecs_def demoSmallCodec_def)
  then have h8: "firstCodec demoCodecs (bitmaps (frames ?rd ! nat 0)) = Some demoSmallCodec" by simp
  have h9: "codecWidth demoSmallCodec < width ?cv" by (simp add: demoSmallCodec_def demoCanvas_def)
  have rects: "replayedRects demoShrink 0 1 = [?null, ?small, ?small]" by code_simp
  have p1: "\<not> paints demoCodecs ?cv ?null 2" by (simp add: paints_def demoCodecs_def)
  have p2: "\<not> paints demoCodecs ?cv ?small 2"
    by (simp add: paints_def demoCodecs_def demoCanvas_def offsetOf_def rowBytes_def inRows_def)
  from p1 p2 rects have out: "\<forall>r\<in>set (replayedRects (frames ?rd) 0 1). \<not> paints demoCodecs ?cv r 2"
    by simp
  have len: "2 < length (pixels ?out)" by (simp add: demoCanvas_def)
  from keyframe_clear_on_shrink [OF h1 h2 h3 h4 h5 h6 h7 h8 disjI1 [OF h9]]
  obtain buffer where pb: "pixelBuffer ?rd' = Some buffer"
    and zero: "\<forall>i<length (pixels buffer).
       (\<forall>r\<in>set (replayedRects (frames ?rd) 0 1). \<not> paints demoCodecs ?cv r i) \<longrightarrow>
       pixels buffer ! i = 0"
    by blast
  from pb have "buffer = ?out" by simp
  with zero len out have "pixels ?out ! 2 = 0" by blast
  with h1 h2 h3 h4 k fc h9 rects p1 p2 show ?thesis by blast
qed

section \<open>Jumping backwards\<close>
















section \<open>Uniform upload: the conversion matrix\<close>

lemma uploadColorConversion_uploads:
  "uploads (uploadColorConversion h cs pd) =
     uploads pd @ (case fixedMatrix cs of None \<Rightarrow> [] | Some m \<Rightarrow> [SetMatrix3f h m])"
  by (cases cs) (simp_all add: setMatrix3f_def)

lemma uploadColorConversion_matrices:
  "matrices (uploadColorConversion h cs pd) =
     (case fixedMatrix cs of None \<Rightarrow> matrices pd | Some m \<Rightarrow> (matrices pd)(h \<mapsto> m))"
  by (cases cs) (simp_all add: setMatrix3f_def)

lemma alphaUpload_facts:
  "colorSpacePrev (fst (alphaUpload effect pd yuvFP)) = colorSpacePrev effect"
  "mat3ColorConversionUniform (fst (alphaUpload effect pd yuvFP)) = mat3ColorConversionUniform effect"
  "matrices (snd (alphaUpload effect pd yuvFP)) = matrices pd"
  "filter isMatrixUpload (uploads (snd (alphaUpload effect pd yuvFP))) = filter isMatrixUpload (uploads pd)"
  by (simp_all add: alphaUpload_def Let_def set2f_def)

lemma onSetData_alphaUpload:
  "onSetData effect pd yuvFP =
     (let (effect1, pd1) = alphaUpload effect pd yuvFP
      in if colorSpace (texture yuvFP) \<noteq> colorSpacePrev effect1
         then (effect1\<lparr>colorSpacePrev := colorSpace (texture yuvFP)\<rparr>,
               uploadColorConversion (mat3ColorConversionUniform effect1)
                 (colorSpace (texture yuvFP)) pd1)
         else (effect1, pd1))"
  by (simp add: onSetData_def alphaUpload_def)

text \<open>
  C4, amended. When the colour-space tag of the texture differs from the tag cached in
  \<^verbatim>\<open>colorSpacePrev\<close>, \<^verbatim>\<open>onSetData\<close> uploads exactly the matrix fixed for the tag if it
  is one of the seven tags, and binds it to the conversion uniform. When the tag equals the
  cached tag it uploads no matrix. For a tag outside the seven it uploads no matrix and
  leaves the bound matrices as they are. In every case the tag is cached afterwards.
\<close>

theorem onSetData_matrix:
  "(colorSpace (texture yuvFP) \<noteq> colorSpacePrev effect \<longrightarrow>
      filter isMatrixUpload (uploads (snd (onSetData effect pd yuvFP))) =
        filter isMatrixUpload (uploads pd) @
          (case fixedMatrix (colorSpace (texture yuvFP)) of
             None \<Rightarrow> []
           | Some m \<Rightarrow> [SetMatrix3f (mat3ColorConversionUniform effect) m]) \<and>
      matrices (snd (onSetData effect pd yuvFP)) =
        (case fixedMatrix (colorSpace (texture yuvFP)) of
           None \<Rightarrow> matrices pd
         | Some m \<Rightarrow> (matrices pd)(mat3ColorConversionUniform effect \<mapsto> m))) \<and>
   (colorSpace (texture yuvFP) = colorSpacePrev effect \<longrightarrow>
      filter isMatrixUpload (uploads (snd (onSetData effect pd yuvFP))) =
        filter isMatrixUpload (uploads pd) \<and>
      matrices (snd (onSetData effect pd yuvFP)) = matrices pd) \<and>
   (fixedMatrix (colorSpace (texture yuvFP)) = None \<longrightarrow>
      filter isMatrixUpload (uploads (snd (onSetData effect pd yuvFP))) =
        filter isMatrixUpload (uploads pd) \<and>
      matrices (snd (onSetData effect pd yuvFP)) = matrices pd) \<and>
   colorSpacePrev (fst (onSetData effect pd yuvFP)) = colorSpace (texture yuvFP)"
proof -
  obtain e1 p1 where a: "alphaUpload effect pd yuvFP = (e1, p1)" by (cases "alphaUpload effect pd yuvFP")
  from alphaUpload_facts [of effect pd yuvFP] a
  have f: "colorSpacePrev e1 = colorSpacePrev effect"
    "mat3ColorConversionUniform e1 = mat3ColorConversionUniform effect"
    "matrices p1 = matrices pd"
    "filter isMatrixUpload (uploads p1) = filter isMatrixUpload (uploads pd)" by simp_all
  show ?thesis
  proof (cases "colorSpace (texture yuvFP) = colorSpacePrev effect")
    case True
    with a f show ?thesis by (simp add: onSetData_alphaUpload)
  next
    case False
    with a f show ?thesis
      by (simp add: onSetData_alphaUpload uploadColorConversion_uploads
          uploadColorConversion_matrices split: option.splits)
  qed
qed

theorem onSetData_matrix_witness:
  "colorSpace (texture \<lparr>texture = demoTexture BT709_FULL, alphaStart = PointZero\<rparr>)
     \<noteq> colorSpacePrev (demoEffect BT601_LIMITED) \<and>
   filter isMatrixUpload (uploads (snd (onSetData (demoEffect BT601_LIMITED) demoProgram
      \<lparr>texture = demoTexture BT709_FULL, alphaStart = PointZero\<rparr>))) =
     [SetMatrix3f (Some 0) [1, 1, 1, 0, - 0.187324, 1.8556, 1.5748, - 0.468124, 0]] \<and>
   colorSpace (texture \<lparr>texture = demoTexture BT709_FULL, alphaStart = PointZero\<rparr>)
     = colorSpacePrev (demoEffect BT709_FULL) \<and>
   filter isMatrixUpload (uploads (snd (onSetData (demoEffect BT709_FULL) demoProgram
      \<lparr>texture = demoTexture BT709_FULL, alphaStart = PointZero\<rparr>))) = [] \<and>
   fixedMatrix (colorSpace (texture \<lparr>texture = demoTexture (OtherColorSpace 7), alphaStart = PointZero\<rparr>)) = None \<and>
   filter isMatrixUpload (uploads (snd (onSetData (demoEffect BT709_FULL) demoProgram
      \<lparr>texture = demoTexture (OtherColorSpace 7), alphaStart = PointZero\<rparr>))) = []"
proof -
  let ?fp = "\<lambda>cs. \<lparr>texture = demoTexture cs, alphaStart = PointZero\<rparr>"
  have h1: "colorSpace (texture (?fp BT709_FULL)) \<noteq> colorSpacePrev (demoEffect BT601_LIMITED)"
    by (simp add: demoTexture_def demoEffect_def)
  have h2: "colorSpace (texture (?fp BT709_FULL)) = colorSpacePrev (demoEffect BT709_FULL)"
    by (simp add: demoTexture_def demoEffect_def)
  have h3: "fixedMatrix (colorSpace (texture (?fp (OtherColorSpace 7)))) = None"
    by (simp add: demoTexture_def)
  have m: "fixedMatrix (colorSpace (texture (?fp BT709_FULL)))
      = Some [1, 1, 1, 0, - 0.187324, 1.8556, 1.5748, - 0.468124, 0]"
    by (simp add: demoTexture_def ColorConversion709FullRange_def)
  have e: "filter isMatrixUpload (uploads demoProgram) = []"
    "mat3ColorConversionUniform (demoEffect BT601_LIMITED) = Some 0"
    by (simp_all add: demoProgram_def demoEffect_def)
  from onSetData_matrix [of "?fp BT709_FULL" "demoEffect BT601_LIMITED" demoProgram] h1 m e
  have c1: "filter isMatrixUpload (uploads (snd (onSetData (demoEffect BT601_LIMITED) demoProgram
      (?fp BT709_FULL)))) =
     [SetMatrix3f (Some 0) [1, 1, 1, 0, - 0.187324, 1.8556, 1.5748, - 0.468124, 0]]" by simp
  from onSetData_matrix [of "?fp BT709_FULL" "demoEffect BT709_FULL" demoProgram] h2 e
  have c2: "filter isMatrixUpload (uploads (snd (onSetData (demoEffect BT709_FULL) demoProgram
      (?fp BT709_FULL)))) = []" by simp
  from onSetData_matrix [of "?fp (OtherColorSpace 7)" "demoEffect BT709_FULL" demoProgram] h3 e
  have c3: "filter isMatrixUpload (uploads (snd (onSetData (demoEffect BT709_FULL) demoProgram
      (?fp (OtherColorSpace 7))))) = []" by simp
  from h1 h2 h3 c1 c2 c3 show ?thesis by blast
qed

text \<open>
  C4 as stated fails when the tag is the cached one: the first call for a \<open>BT601_FULL\<close>
  texture uploads its matrix, the second call for the same texture uploads nothing more.
\<close>

theorem onSetData_matrix_counterexample:
  "uploads (snd (onSetData (demoEffect (OtherColorSpace 0)) demoProgram
      \<lparr>texture = demoTexture BT601_FULL, alphaStart = PointZero\<rparr>)) =
     [SetMatrix3f (Some 0) [1, 1, 1, 0, - 0.344136, 1.772, 1.402, - 0.714136, 0]] \<and>
   uploads (snd (onSetData
      (fst (onSetData (demoEffect (OtherColorSpace 0)) demoProgram
              \<lparr>texture = demoTexture BT601_FULL, alphaStart = PointZero\<rparr>))
      (snd (onSetData (demoEffect (OtherColorSpace 0)) demoProgram
              \<lparr>texture = demoTexture BT601_FULL, alphaStart = PointZero\<rparr>))
      \<lparr>texture = demoTexture BT601_FULL, alphaStart = PointZero\<rparr>)) =
     [SetMatrix3f (Some 0) [1, 1, 1, 0, - 0.344136, 1.772, 1.402, - 0.714136, 0]]"
  by (simp add: onSetData_def demoEffect_def demoProgram_def demoTexture_def setMatrix3f_def
      ColorConversion601FullRange_def)

section \<open>Shader emission: the alpha plane\<close>

lemma codeAppend_simps [simp]:
  "fragBuilder (codeAppend items args) = fragBuilder args @ items"
  "uniformHandler (codeAppend items args) = uniformHandler args"
  "outputColor (codeAppend items args) = outputColor args"
  "inputColor (codeAppend items args) = inputColor args"
  "coordName (codeAppend items args) = coordName args"
  "uniformName (codeAppend items args) = uniformName args"
  by (simp_all add: codeAppend_def)

lemma emitCode_alpha_statements:
  assumes "alphaStart yuvFP \<noteq> PointZero"
  shows "\<exists>pre. fragBuilder (snd (emitCode effect yuvFP args)) =
           pre @ [Code ''yuv_a = (yuv_a - 16.0/255.0) / (219.0/255.0 - 1.0/255.0);'',
                  Code ''yuv_a = clamp(yuv_a, 0.0, 1.0);'',
                  Code (outputColor args @ '' = vec4(rgb * yuv_a, yuv_a) * '' @ inputColor args @ '';'')]"
  using assms
  by (simp add: emitCode_def Let_def addUniform_def split: prod.splits)

text \<open>
  C8. With an alpha start other than the origin, the code emitted for the alpha sample ends
  with the rescale statement, the clamp and the output. Read over the exact rationals, an
  alpha sample of 1 rescales to \<open>239/218\<close>, which exceeds 1, and is clamped to exactly 1;
  an alpha sample of \<open>16/255\<close> rescales, and is clamped, to exactly 0.
\<close>

theorem alpha_correction_boundaries:
  "(alphaStart yuvFP \<noteq> PointZero \<longrightarrow>
      (\<exists>pre. fragBuilder (snd (emitCode effect yuvFP args)) =
         pre @ [Code ''yuv_a = (yuv_a - 16.0/255.0) / (219.0/255.0 - 1.0/255.0);'',
                Code ''yuv_a = clamp(yuv_a, 0.0, 1.0);'',
                Code (outputColor args @ '' = vec4(rgb * yuv_a, yuv_a) * '' @ inputColor args @ '';'')])) \<and>
   alphaRescale 1 = 239 / 218 \<and> 1 < alphaRescale 1 \<and> alphaCorrection 1 = 1 \<and>
   alphaRescale (16 / 255) = 0 \<and> alphaCorrection (16 / 255) = 0"
  using emitCode_alpha_statements [of yuvFP effect args]
  by (simp add: alphaRescale_def alphaCorrection_def clamp_def)

theorem alpha_correction_boundaries_witness:
  "alphaStart \<lparr>texture = demoTexture BT601_LIMITED, alphaStart = \<lparr>pointX = 0, pointY = 32\<rparr>\<rparr>
     \<noteq> PointZero \<and>
   (\<exists>pre. fragBuilder (snd (emitCode (demoEffect BT601_LIMITED)
        \<lparr>texture = demoTexture BT601_LIMITED, alphaStart = \<lparr>pointX = 0, pointY = 32\<rparr>\<rparr> demoArgs)) =
      pre @ [Code ''yuv_a = (yuv_a - 16.0/255.0) / (219.0/255.0 - 1.0/255.0);'',
             Code ''yuv_a = clamp(yuv_a, 0.0, 1.0);'',
             Code ''out = vec4(rgb * yuv_a, yuv_a) * in;'']) \<and>
   alphaCorrection 1 = 1 \<and> alphaCorrection (16 / 255) = 0"
proof -
  let ?fp = "\<lparr>texture = demoTexture BT601_LIMITED, alphaStart = \<lparr>pointX = 0, pointY = 32\<rparr>\<rparr>"
  have h: "alphaStart ?fp \<noteq> PointZero" by (simp add: PointZero_def)
  from alpha_correction_boundaries [of ?fp "demoEffect BT601_LIMITED" demoArgs] h
  show ?thesis by (simp add: demoArgs_def)
qed

text \<open>
  C10. With an alpha start equal to the origin \<open>(0, 0)\<close>, \<^verbatim>\<open>emitCode\<close> adds the
  conversion-matrix uniform only, leaves the alpha-start handle as it was, and ends with the
  opaque output statement, whose alpha is the constant \<open>1.0\<close>: an alpha plane that begins
  at the texture origin is emitted as no alpha plane.
\<close>

theorem emitCode_origin_is_opaque:
  assumes "alphaStart yuvFP = PointZero"
  shows "uniformHandler (snd (emitCode effect yuvFP args)) =
           uniformHandler args @ [(Float3x3, ''Mat3ColorConversion'')] \<and>
         alphaStartUniform (fst (emitCode effect yuvFP args)) = alphaStartUniform effect \<and>
         (\<exists>pre. fragBuilder (snd (emitCode effect yuvFP args)) =
            pre @ [Code (''vec3 rgb = clamp('' @ uniformName args ''Mat3ColorConversion''
                         @ '' * yuv, 0.0, 1.0);''),
                   Code (outputColor args @ '' = vec4(rgb, 1.0) * '' @ inputColor args @ '';'')])"
  using assms
  by (simp add: emitCode_def Let_def addUniform_def split: prod.splits)

theorem emitCode_origin_is_opaque_witness:
  "alphaStart \<lparr>texture = demoTexture BT601_LIMITED, alphaStart = PointZero\<rparr> = PointZero \<and>
   uniformHandler (snd (emitCode (demoEffect BT601_LIMITED)
       \<lparr>texture = demoTexture BT601_LIMITED, alphaStart = PointZero\<rparr> demoArgs)) =
     [(Float3x3, ''Mat3ColorConversion'')] \<and>
   alphaStartUniform (fst (emitCode (demoEffect BT601_LIMITED)
       \<lparr>texture = demoTexture BT601_LIMITED, alphaStart = PointZero\<rparr> demoArgs)) = None \<and>
   (\<exists>pre. fragBuilder (snd (emitCode (demoEffect BT601_LIMITED)
       \<lparr>texture = demoTexture BT601_LIMITED, alphaStart = PointZero\<rparr> demoArgs)) =
      pre @ [Code ''vec3 rgb = clamp(Mat3ColorConversion * yuv, 0.0, 1.0);'',
             Code ''out = vec4(rgb, 1.0) * in;''])"
proof -
  let ?fp = "\<lparr>texture = demoTexture BT601_LIMITED, alphaStart = PointZero\<rparr>"
  have h: "alphaStart ?fp = PointZero" by simp
  from emitCode_origin_is_opaque [OF h, of "demoEffect BT601_LIMITED" demoArgs] h
  show ?thesis by (simp add: demoArgs_def demoEffect_def)
qed

end
